theory Spec2Isabelle
  imports Complex_Main
begin

section \<open>The multigrid V-cycle of multigrid.templates.h\<close>

text \<open>
  The class template \<open>Multigrid<VECTOR>\<close> holds three per-level containers of vectors
  (\<open>defect\<close>, \<open>solution\<close>, \<open>t\<close>), the level range \<open>minlevel .. maxlevel\<close> and pointers to
  the operators it calls. Its two member functions \<open>level_mgstep\<close> and \<open>vcycle\<close> are
  embedded below, statement by statement. Scalars are real numbers (exact arithmetic),
  a vector is the list of its entries, and its shape is the length of that list.
\<close>

subsection \<open>Vectors\<close>

type_synonym vec = "real list"

datatype error = LevelOutOfRange | ShapeMismatch | MalformedLevelRange

text \<open>
  Modelled from the spec: the vector class \<open>VECTOR\<close> is a template parameter whose
  code is not in the source tree. The engine uses four of its operations: assignment of
  zero (\<open>v = 0.\<close>, which keeps the shape), \<open>v.reinit(w)\<close> (the shape of \<open>w\<close>,
  zero-initialized), \<open>v += w\<close> and \<open>v -= w\<close>. Vectors of different shapes are a fatal
  precondition failure of the last two.
\<close>

definition zero_vec :: "vec \<Rightarrow> vec" where
  "zero_vec v = replicate (length v) 0"

definition reinit :: "vec \<Rightarrow> vec \<Rightarrow> vec" where
  "reinit v w = replicate (length w) 0"

definition vec_add :: "vec \<Rightarrow> vec \<Rightarrow> error + vec" where
  "vec_add v w = (if length v = length w then Inr (map2 (+) v w) else Inl ShapeMismatch)"

definition vec_sub :: "vec \<Rightarrow> vec \<Rightarrow> error + vec" where
  "vec_sub v w = (if length v = length w then Inr (map2 (-) v w) else Inl ShapeMismatch)"

subsection \<open>Per-level containers\<close>

text \<open>
  Modelled from the spec: the container \<open>MGLevelObject<VECTOR>\<close> is not in the source
  tree. It holds one vector for every level of its active range; a level outside the
  range has no vector (\<open>None\<close>), and reading or writing it is a fatal failure.
  \<open>resize(lo, hi)\<close> sets the active range to \<open>lo .. hi\<close> with freshly created (empty)
  vectors; a range with \<open>hi < lo\<close> is malformed.
\<close>

type_synonym level_object = "nat \<rightharpoonup> vec"

definition mgl_resize :: "nat \<Rightarrow> nat \<Rightarrow> error + level_object" where
  "mgl_resize lo hi =
     (if lo \<le> hi then Inr (\<lambda>l. if lo \<le> l \<and> l \<le> hi then Some [] else None)
      else Inl MalformedLevelRange)"

subsection \<open>Operators\<close>

text \<open>
  Every operator is called as \<open>op(level, dst, src)\<close> with a mutable \<open>dst\<close> and a
  constant \<open>src\<close>. It is embedded as a function of the level, the old contents of \<open>dst\<close>
  and \<open>src\<close> that returns the new contents of \<open>dst\<close>: an operator cannot write
  anything else. The smoothers and the coarse solver are objects with one such method;
  a matrix has \<open>vmult\<close> and \<open>Tvmult\<close>, the transfer has \<open>prolongate\<close> and
  \<open>restrict_and_add\<close>. A null edge matrix is \<open>None\<close>.
\<close>

type_synonym level_op = "nat \<Rightarrow> vec \<Rightarrow> vec \<Rightarrow> vec"

record mg_matrix =
  vmult :: level_op
  Tvmult :: level_op

record mg_transfer =
  prolongate :: level_op
  restrict_and_add :: level_op

record multigrid =
  minlevel :: nat
  maxlevel :: nat
  matrix :: mg_matrix
  coarse :: level_op
  transfer :: mg_transfer
  pre_smooth :: level_op
  post_smooth :: level_op
  edge_down :: "mg_matrix option"
  edge_up :: "mg_matrix option"

text \<open>Lines 19 to 26: \<open>set_edge_matrices\<close> stores the addresses of the two edge matrices.\<close>

definition set_edge_matrices :: "mg_matrix \<Rightarrow> mg_matrix \<Rightarrow> multigrid \<Rightarrow> multigrid" where
  "set_edge_matrices down up mg = mg\<lparr>edge_down := Some down, edge_up := Some up\<rparr>"

subsection \<open>The vectors of a cycle\<close>

text \<open>
  The field \<open>trace\<close> is a ghost: it records, in order, every entry into \<open>level_mgstep\<close>
  and every operator call the engine makes, with the level passed. No statement reads it.
\<close>

datatype event =
    Enter (level_of: nat)
  | CoarseSolve (level_of: nat)
  | PreSmooth (level_of: nat)
  | MatrixVmult (level_of: nat)
  | EdgeDownVmult (level_of: nat)
  | RestrictAndAdd (level_of: nat)
  | Prolongate (level_of: nat)
  | EdgeUpTvmult (level_of: nat)
  | PostSmooth (level_of: nat)

record mg_state =
  defect :: level_object
  solution :: level_object
  t :: level_object
  trace :: "event list"

type_synonym step = "mg_state \<Rightarrow> error + mg_state"

definition seq :: "error + 'a \<Rightarrow> ('a \<Rightarrow> error + 'b) \<Rightarrow> error + 'b" where
  "seq r f = (case r of Inl e \<Rightarrow> Inl e | Inr x \<Rightarrow> f x)"

subsection \<open>The statements of level_mgstep\<close>

definition enter :: "nat \<Rightarrow> mg_state \<Rightarrow> mg_state" where
  "enter level s = s\<lparr>trace := trace s @ [Enter level]\<rparr>"

text \<open>Line 41: \<open>solution[level] = 0.\<close>\<close>

definition zero_solution :: "nat \<Rightarrow> step" where
  "zero_solution level s =
     (case solution s level of
        None \<Rightarrow> Inl LevelOutOfRange
      | Some x \<Rightarrow> Inr (s\<lparr>solution := (solution s)(level \<mapsto> zero_vec x)\<rparr>))"

text \<open>Line 45: \<open>(*coarse)(level, solution[level], defect[level])\<close>\<close>

definition coarse_solve :: "multigrid \<Rightarrow> nat \<Rightarrow> step" where
  "coarse_solve mg level s =
     (case (solution s level, defect s level) of
        (Some x, Some d) \<Rightarrow>
          Inr (s\<lparr>solution := (solution s)(level \<mapsto> coarse mg level x d),
                 trace := trace s @ [CoarseSolve level]\<rparr>)
      | _ \<Rightarrow> Inl LevelOutOfRange)"

text \<open>Line 54: \<open>pre_smooth->smooth(level, solution[level], defect[level])\<close>\<close>

definition pre_smoothing :: "multigrid \<Rightarrow> nat \<Rightarrow> step" where
  "pre_smoothing mg level s =
     (case (solution s level, defect s level) of
        (Some x, Some d) \<Rightarrow>
          Inr (s\<lparr>solution := (solution s)(level \<mapsto> pre_smooth mg level x d),
                 trace := trace s @ [PreSmooth level]\<rparr>)
      | _ \<Rightarrow> Inl LevelOutOfRange)"

text \<open>Line 62: \<open>matrix->vmult(level, t[level], solution[level])\<close>\<close>

definition residual :: "multigrid \<Rightarrow> nat \<Rightarrow> step" where
  "residual mg level s =
     (case (t s level, solution s level) of
        (Some y, Some x) \<Rightarrow>
          Inr (s\<lparr>t := (t s)(level \<mapsto> vmult (matrix mg) level y x),
                 trace := trace s @ [MatrixVmult level]\<rparr>)
      | _ \<Rightarrow> Inl LevelOutOfRange)"

text \<open>Lines 71 and 87: \<open>t[k] = 0.\<close>\<close>

definition zero_t :: "nat \<Rightarrow> step" where
  "zero_t k s =
     (case t s k of
        None \<Rightarrow> Inl LevelOutOfRange
      | Some y \<Rightarrow> Inr (s\<lparr>t := (t s)(k \<mapsto> zero_vec y)\<rparr>))"

text \<open>Line 74: \<open>edge_down->vmult(level, t[level-1], solution[level])\<close>\<close>

definition edge_down_vmult :: "mg_matrix \<Rightarrow> nat \<Rightarrow> step" where
  "edge_down_vmult e level s =
     (case (t s (level - 1), solution s level) of
        (Some y, Some x) \<Rightarrow>
          Inr (s\<lparr>t := (t s)(level - 1 \<mapsto> vmult e level y x),
                 trace := trace s @ [EdgeDownVmult level]\<rparr>)
      | _ \<Rightarrow> Inl LevelOutOfRange)"

text \<open>Lines 72 to 75: the branch \<open>if (l==level && edge_down != 0)\<close>\<close>

definition edge_down_contribution :: "multigrid \<Rightarrow> nat \<Rightarrow> nat \<Rightarrow> step" where
  "edge_down_contribution mg level l s =
     (if l = level
      then (case edge_down mg of None \<Rightarrow> Inr s | Some e \<Rightarrow> edge_down_vmult e level s)
      else Inr s)"

text \<open>Line 76: \<open>transfer->restrict_and_add (l, t[l-1], t[l])\<close>\<close>

definition restriction :: "multigrid \<Rightarrow> nat \<Rightarrow> step" where
  "restriction mg l s =
     (case (t s (l - 1), t s l) of
        (Some y, Some z) \<Rightarrow>
          Inr (s\<lparr>t := (t s)(l - 1 \<mapsto> restrict_and_add (transfer mg) l y z),
                 trace := trace s @ [RestrictAndAdd l]\<rparr>)
      | _ \<Rightarrow> Inl LevelOutOfRange)"

text \<open>Lines 77 and 103: \<open>defect[k] -= t[k]\<close>\<close>

definition subtract_from_defect :: "nat \<Rightarrow> step" where
  "subtract_from_defect k s =
     (case (defect s k, t s k) of
        (Some d, Some y) \<Rightarrow> seq (vec_sub d y) (\<lambda>d'. Inr (s\<lparr>defect := (defect s)(k \<mapsto> d')\<rparr>))
      | _ \<Rightarrow> Inl LevelOutOfRange)"

text \<open>
  Lines 71 to 77, the body of the loop for one \<open>l\<close>. The loop runs only while
  \<open>l > minlevel\<close>, so \<open>l - 1\<close> does not wrap.
\<close>

definition cascade_body :: "multigrid \<Rightarrow> nat \<Rightarrow> nat \<Rightarrow> step" where
  "cascade_body mg level l s =
     seq (zero_t (l - 1) s) (\<lambda>s.
     seq (edge_down_contribution mg level l s) (\<lambda>s.
     seq (restriction mg l s) (subtract_from_defect (l - 1))))"

text \<open>Lines 69 to 78: \<open>for (unsigned int l = level; l > minlevel; --l)\<close>\<close>

function restrict_cascade :: "multigrid \<Rightarrow> nat \<Rightarrow> nat \<Rightarrow> step" where
  "restrict_cascade mg level l s =
     (if l > minlevel mg
      then seq (cascade_body mg level l s) (restrict_cascade mg level (l - 1))
      else Inr s)"
  by pat_completeness auto
termination
  by (relation "measure (\<lambda>(mg, level, l, s). l)") auto

text \<open>Lines 54 to 78: what a frame above \<open>minlevel\<close> does before it recurses.\<close>

definition descend :: "multigrid \<Rightarrow> nat \<Rightarrow> step" where
  "descend mg level s =
     seq (pre_smoothing mg level s) (\<lambda>s.
     seq (residual mg level s) (restrict_cascade mg level level))"

text \<open>Line 91: \<open>transfer->prolongate(level, t[level], solution[level-1])\<close>\<close>

definition prolongation :: "multigrid \<Rightarrow> nat \<Rightarrow> step" where
  "prolongation mg level s =
     (case (t s level, solution s (level - 1)) of
        (Some y, Some x) \<Rightarrow>
          Inr (s\<lparr>t := (t s)(level \<mapsto> prolongate (transfer mg) level y x),
                 trace := trace s @ [Prolongate level]\<rparr>)
      | _ \<Rightarrow> Inl LevelOutOfRange)"

text \<open>Line 98: \<open>solution[level] += t[level]\<close>\<close>

definition add_correction :: "nat \<Rightarrow> step" where
  "add_correction level s =
     (case (solution s level, t s level) of
        (Some x, Some y) \<Rightarrow>
          seq (vec_add x y) (\<lambda>x'. Inr (s\<lparr>solution := (solution s)(level \<mapsto> x')\<rparr>))
      | _ \<Rightarrow> Inl LevelOutOfRange)"

text \<open>Line 102: \<open>edge_up->Tvmult(level, t[level], solution[level-1])\<close>\<close>

definition edge_up_Tvmult :: "mg_matrix \<Rightarrow> nat \<Rightarrow> step" where
  "edge_up_Tvmult e level s =
     (case (t s level, solution s (level - 1)) of
        (Some y, Some x) \<Rightarrow>
          Inr (s\<lparr>t := (t s)(level \<mapsto> Tvmult e level y x),
                 trace := trace s @ [EdgeUpTvmult level]\<rparr>)
      | _ \<Rightarrow> Inl LevelOutOfRange)"

text \<open>Lines 100 to 104: the branch \<open>if (edge_up != 0)\<close>\<close>

definition edge_up_correction :: "multigrid \<Rightarrow> nat \<Rightarrow> step" where
  "edge_up_correction mg level s =
     (case edge_up mg of
        None \<Rightarrow> Inr s
      | Some e \<Rightarrow> seq (edge_up_Tvmult e level s) (subtract_from_defect level))"

text \<open>Line 107: \<open>post_smooth->smooth(level, solution[level], defect[level])\<close>\<close>

definition post_smoothing :: "multigrid \<Rightarrow> nat \<Rightarrow> step" where
  "post_smoothing mg level s =
     (case (solution s level, defect s level) of
        (Some x, Some d) \<Rightarrow>
          Inr (s\<lparr>solution := (solution s)(level \<mapsto> post_smooth mg level x d),
                 trace := trace s @ [PostSmooth level]\<rparr>)
      | _ \<Rightarrow> Inl LevelOutOfRange)"

text \<open>
  Lines 87 to 107: what a frame above \<open>minlevel\<close> does after the recursive call has
  returned. It is reached with \<open>level > 0\<close> only, so \<open>level - 1\<close> does not wrap.
\<close>

definition ascend :: "multigrid \<Rightarrow> nat \<Rightarrow> step" where
  "ascend mg level s =
     seq (zero_t level s) (\<lambda>s.
     seq (prolongation mg level s) (\<lambda>s.
     seq (add_correction level s) (\<lambda>s.
     seq (edge_up_correction mg level s) (post_smoothing mg level))))"

subsection \<open>level_mgstep\<close>

text \<open>
  Lines 31 to 115. The blocks under \<open>MG_DEBUG\<close> only print vectors and are left out.
  The level is an \<open>unsigned int\<close>: \<open>level - 1\<close> at level 0 wraps to
  \<open>2^32 - 1\<close>, a level that no container holds, so the recursive call from level 0
  (possible only below \<open>minlevel\<close>) fails on its first statement. This is written out as
  the guard \<open>level = 0\<close>; everywhere else the levels are natural numbers.
\<close>

function level_mgstep :: "multigrid \<Rightarrow> nat \<Rightarrow> step" where
  "level_mgstep mg level s =
     seq (zero_solution level (enter level s)) (\<lambda>s.
       if level = minlevel mg then coarse_solve mg level s
       else
         seq (descend mg level s) (\<lambda>s.
         seq (if level = 0 then Inl LevelOutOfRange else level_mgstep mg (level - 1) s)
             (ascend mg level)))"
  by pat_completeness auto
termination
  by (relation "measure (\<lambda>(mg, level, s). level)") auto

subsection \<open>vcycle\<close>

text \<open>Lines 130 and 131: the two \<open>reinit\<close> calls for one level.\<close>

definition reinit_level :: "nat \<Rightarrow> step" where
  "reinit_level level s =
     (case (defect s level, solution s level, t s level) of
        (Some d, Some x, Some y) \<Rightarrow>
          Inr (s\<lparr>solution := (solution s)(level \<mapsto> reinit x d),
                 t := (t s)(level \<mapsto> reinit y d)\<rparr>)
      | _ \<Rightarrow> Inl LevelOutOfRange)"

text \<open>Line 128: \<open>++level\<close> on an \<open>unsigned int\<close>, which wraps from \<open>2^32 - 1\<close> to 0.\<close>

definition next_level :: "nat \<Rightarrow> nat" where
  "next_level level = Suc level mod 2 ^ 32"

text \<open>
  Lines 128 to 132: \<open>for (unsigned int level=minlevel; level<=maxlevel; ++level)\<close>.
  For \<open>maxlevel = 2^32 - 1\<close> the condition holds for every \<open>unsigned int\<close>: the loop
  then ends in a failure of its body or runs forever. Not returning is the value \<open>None\<close>.
\<close>

partial_function (option) reinit_levels ::
  "multigrid \<Rightarrow> nat \<Rightarrow> mg_state \<Rightarrow> (error + mg_state) option" where
  "reinit_levels mg level s =
     (if level \<le> maxlevel mg
      then (case reinit_level level s of
              Inl e \<Rightarrow> Some (Inl e)
            | Inr s' \<Rightarrow> reinit_levels mg (next_level level) s')
      else Some (Inr s))"

text \<open>Lines 125 to 132: the resize step of the driver.\<close>

definition resize_vectors :: "multigrid \<Rightarrow> mg_state \<Rightarrow> (error + mg_state) option" where
  "resize_vectors mg s =
     (case mgl_resize (minlevel mg) (maxlevel mg) of
        Inl e \<Rightarrow> Some (Inl e)
      | Inr sol \<Rightarrow>
          (case mgl_resize (minlevel mg) (maxlevel mg) of
             Inl e \<Rightarrow> Some (Inl e)
           | Inr aux \<Rightarrow> reinit_levels mg (minlevel mg) (s\<lparr>solution := sol, t := aux\<rparr>)))"

text \<open>A step after a part of the driver that may not return.\<close>

definition run_then :: "(error + mg_state) option \<Rightarrow> step \<Rightarrow> (error + mg_state) option" where
  "run_then r f = map_option (\<lambda>x. seq x f) r"

text \<open>Lines 118 to 136.\<close>

definition vcycle :: "multigrid \<Rightarrow> mg_state \<Rightarrow> (error + mg_state) option" where
  "vcycle mg s = run_then (resize_vectors mg s) (level_mgstep mg (maxlevel mg))"

section \<open>Notions used to state the properties\<close>

subsection \<open>Observations of an outcome\<close>

text \<open>The scratch vector and the trace of a run that returned a state.\<close>

definition scratch_at :: "(error + mg_state) option \<Rightarrow> nat \<Rightarrow> vec option" where
  "scratch_at r l = (case r of Some (Inr s) \<Rightarrow> t s l | _ \<Rightarrow> None)"

definition events_of :: "(error + mg_state) option \<Rightarrow> event list" where
  "events_of r = (case r of Some (Inr s) \<Rightarrow> trace s | _ \<Rightarrow> [])"

text \<open>
  A frame above \<open>minlevel\<close> up to its recursive call (lines 41 to 78), and up to the
  return of that call (line 81).
\<close>

definition before_recursion :: "multigrid \<Rightarrow> nat \<Rightarrow> step" where
  "before_recursion mg level s = seq (zero_solution level (enter level s)) (descend mg level)"

definition after_recursion :: "multigrid \<Rightarrow> nat \<Rightarrow> step" where
  "after_recursion mg level s = seq (before_recursion mg level s) (level_mgstep mg (level - 1))"

text \<open>Lines 91 to 107: what a frame does after line 87 has zeroed \<open>t[level]\<close>.\<close>

definition correct_and_smooth :: "multigrid \<Rightarrow> nat \<Rightarrow> step" where
  "correct_and_smooth mg level s =
     seq (prolongation mg level s) (\<lambda>s.
     seq (add_correction level s) (\<lambda>s.
     seq (edge_up_correction mg level s) (post_smoothing mg level)))"

subsection \<open>Which vectors a step may write\<close>

text \<open>
  \<open>writes_within D S T s s'\<close>: from \<open>s\<close> to \<open>s'\<close> the defect vectors changed at most at
  the levels of \<open>D\<close>, the solution vectors at most at those of \<open>S\<close>, and the scratch
  vectors \<open>t\<close> at most at those of \<open>T\<close>.
\<close>

definition writes_within :: "nat set \<Rightarrow> nat set \<Rightarrow> nat set \<Rightarrow> mg_state \<Rightarrow> mg_state \<Rightarrow> bool" where
  "writes_within D S T s s' \<longleftrightarrow>
     (\<forall>k. k \<notin> D \<longrightarrow> defect s' k = defect s k) \<and>
     (\<forall>k. k \<notin> S \<longrightarrow> solution s' k = solution s k) \<and>
     (\<forall>k. k \<notin> T \<longrightarrow> t s' k = t s k)"

subsection \<open>The calls of a cycle\<close>

text \<open>
  \<open>calls_of c es\<close> lists, in order, the levels at which the trace \<open>es\<close> records an
  event of the kind \<open>c\<close>: \<open>calls_of EdgeUpTvmult (trace s)\<close> are the levels at which
  \<open>edge_up->Tvmult\<close> was called, \<open>calls_of Enter (trace s)\<close> the levels of the frames of
  \<open>level_mgstep\<close>.
\<close>

definition calls_of :: "(nat \<Rightarrow> event) \<Rightarrow> event list \<Rightarrow> nat list" where
  "calls_of c es = map level_of (filter (\<lambda>e. e = c (level_of e)) es)"

text \<open>
  The calls that step 4 of section 4.3 of the specification prescribes for the
  restriction cascade of a frame at \<open>level\<close>: the edge-down product once, at the top, and
  one restriction for every \<open>l\<close> from \<open>level\<close> down to \<open>minlevel + 1\<close>.
\<close>

definition cascade_events :: "multigrid \<Rightarrow> nat \<Rightarrow> event list" where
  "cascade_events mg level =
     (if minlevel mg < level \<and> edge_down mg \<noteq> None then [EdgeDownVmult level] else []) @
     map RestrictAndAdd (rev [Suc (minlevel mg) ..< Suc level])"

text \<open>The events of one frame of \<open>level_mgstep\<close> and of the frames below it.\<close>

fun mgstep_events :: "multigrid \<Rightarrow> nat \<Rightarrow> event list" where
  "mgstep_events mg level =
     Enter level #
     (if level = minlevel mg then [CoarseSolve level]
      else if level = 0 then []
      else [PreSmooth level, MatrixVmult level] @ cascade_events mg level @
           mgstep_events mg (level - 1) @
           [Prolongate level] @
           (if edge_up mg = None then [] else [EdgeUpTvmult level]) @
           [PostSmooth level])"

subsection \<open>The outcome of the resize step\<close>

text \<open>
  Section 4.1 of the specification: after the resize, \<open>solution[l]\<close> and \<open>scratch[l]\<close>
  have the shape of \<open>defect[l]\<close> and are zero, for every level of the range, and there is
  no vector outside the range.
\<close>

definition zeros_like :: "multigrid \<Rightarrow> level_object \<Rightarrow> level_object" where
  "zeros_like mg D =
     (\<lambda>l. if minlevel mg \<le> l \<and> l \<le> maxlevel mg then map_option zero_vec (D l) else None)"

subsection \<open>The accumulator of the restriction cascade\<close>

text \<open>
  What \<open>scratch[l-1]\<close> holds when the restriction of \<open>scratch[l]\<close> is accumulated into it,
  \<open>y\<close> being its contents at the start of the cascade: zero, or, for \<open>l = level\<close> and a
  configured \<open>edge_down\<close>, the edge-down product of \<open>solution[level]\<close> written over zero.
\<close>

definition edge_down_base :: "multigrid \<Rightarrow> nat \<Rightarrow> nat \<Rightarrow> mg_state \<Rightarrow> vec \<Rightarrow> vec option" where
  "edge_down_base mg level l s y =
     (if l = level
      then (case edge_down mg of
              None \<Rightarrow> Some (zero_vec y)
            | Some e \<Rightarrow> map_option (vmult e level (zero_vec y)) (solution s level))
      else Some (zero_vec y))"

subsection \<open>Shapes\<close>

text \<open>
  \<open>n l\<close> is the number of unknowns of level \<open>l\<close>. The operators keep these shapes
  when each of them, given vectors of the shapes of the levels it is called between,
  leaves its destination with the shape it had: the contract of section 4.2. The vectors
  of a state have these shapes when every level of the range has its three vectors, each
  with \<open>n l\<close> entries.
\<close>

definition keeps_shapes :: "(nat \<Rightarrow> nat) \<Rightarrow> multigrid \<Rightarrow> bool" where
  "keeps_shapes n mg \<longleftrightarrow>
     (\<forall>x d. length x = n (minlevel mg) \<and> length d = n (minlevel mg) \<longrightarrow>
        length (coarse mg (minlevel mg) x d) = n (minlevel mg)) \<and>
     (\<forall>l x d. minlevel mg < l \<and> l \<le> maxlevel mg \<and> length x = n l \<and> length d = n l \<longrightarrow>
        length (pre_smooth mg l x d) = n l \<and>
        length (post_smooth mg l x d) = n l \<and>
        length (vmult (matrix mg) l x d) = n l) \<and>
     (\<forall>l c f. minlevel mg < l \<and> l \<le> maxlevel mg \<and> length c = n (l - 1) \<and> length f = n l \<longrightarrow>
        length (restrict_and_add (transfer mg) l c f) = n (l - 1) \<and>
        length (prolongate (transfer mg) l f c) = n l \<and>
        (\<forall>e. edge_down mg = Some e \<longrightarrow> length (vmult e l c f) = n (l - 1)) \<and>
        (\<forall>e. edge_up mg = Some e \<longrightarrow> length (Tvmult e l f c) = n l))"

definition shaped :: "(nat \<Rightarrow> nat) \<Rightarrow> multigrid \<Rightarrow> mg_state \<Rightarrow> bool" where
  "shaped n mg s \<longleftrightarrow>
     (\<forall>l. minlevel mg \<le> l \<and> l \<le> maxlevel mg \<longrightarrow>
        (\<exists>d x y. defect s l = Some d \<and> solution s l = Some x \<and> t s l = Some y \<and>
           length d = n l \<and> length x = n l \<and> length y = n l))"

subsection \<open>Linear operators and scaled vectors\<close>

definition smult :: "real \<Rightarrow> vec \<Rightarrow> vec" where
  "smult c v = map ((*) c) v"

definition scale_object :: "real \<Rightarrow> level_object \<Rightarrow> level_object" where
  "scale_object c m = (\<lambda>l. map_option (smult c) (m l))"

definition scaled :: "real \<Rightarrow> mg_state \<Rightarrow> mg_state" where
  "scaled c s = s\<lparr>defect := scale_object c (defect s),
                   solution := scale_object c (solution s),
                   t := scale_object c (t s)\<rparr>"

text \<open>
  An operator is a linear map when the new contents of its destination depend linearly
  on the pair of the old contents and the source: it commutes with the multiplication by
  a scalar and with the addition of vectors of equal shapes.
\<close>

definition linear_op :: "level_op \<Rightarrow> bool" where
  "linear_op f \<longleftrightarrow>
     (\<forall>l c x y. f l (smult c x) (smult c y) = smult c (f l x y)) \<and>
     (\<forall>l x x' y y'. length x = length x' \<and> length y = length y' \<longrightarrow>
        f l (map2 (+) x x') (map2 (+) y y') = map2 (+) (f l x y) (f l x' y'))"

definition linear_mg :: "multigrid \<Rightarrow> bool" where
  "linear_mg mg \<longleftrightarrow>
     linear_op (pre_smooth mg) \<and> linear_op (post_smooth mg) \<and> linear_op (coarse mg) \<and>
     linear_op (prolongate (transfer mg)) \<and> linear_op (restrict_and_add (transfer mg)) \<and>
     linear_op (vmult (matrix mg)) \<and>
     (\<forall>e. edge_down mg = Some e \<longrightarrow> linear_op (vmult e)) \<and>
     (\<forall>e. edge_up mg = Some e \<longrightarrow> linear_op (Tvmult e))"

subsection \<open>Null and zero-returning edge matrices\<close>

text \<open>
  The no-op edge matrix: its products leave the zero vector in the destination. A
  configuration without edge matrices, and the same configuration with the no-op matrix
  for both.
\<close>

definition zero_matrix :: mg_matrix where
  "zero_matrix = \<lparr>vmult = (\<lambda>l dst src. zero_vec dst), Tvmult = (\<lambda>l dst src. zero_vec dst)\<rparr>"

definition without_edges :: "multigrid \<Rightarrow> multigrid" where
  "without_edges mg = mg\<lparr>edge_down := None, edge_up := None\<rparr>"

definition with_zero_edges :: "multigrid \<Rightarrow> multigrid" where
  "with_zero_edges mg = set_edge_matrices zero_matrix zero_matrix mg"

text \<open>
  Two states agree up to \<open>X\<close> when they have the same defect and solution vectors and
  the same scratch vectors except at the levels of \<open>X\<close>. Their traces may differ.
\<close>

definition agree :: "nat set \<Rightarrow> mg_state \<Rightarrow> mg_state \<Rightarrow> bool" where
  "agree X s1 s2 \<longleftrightarrow>
     defect s1 = defect s2 \<and> solution s1 = solution s2 \<and> (\<forall>k. k \<notin> X \<longrightarrow> t s1 k = t s2 k)"

section \<open>A small hierarchy to run the engine on\<close>

text \<open>
  Every level has two unknowns. The level matrix is \<open>2 I\<close> and the coarse solver its
  inverse, a smoothing step is one damped Richardson sweep \<open>x + (d - 2 x) / 4\<close>, the
  prolongation copies the coarse vector and the restriction adds the fine vector. The edge
  matrix, where one is configured, is the identity.
\<close>

definition ex_matrix :: mg_matrix where
  "ex_matrix = \<lparr>vmult = (\<lambda>l dst src. map (\<lambda>a. 2 * a) src),
                 Tvmult = (\<lambda>l dst src. map (\<lambda>a. 2 * a) src)\<rparr>"

definition ex_edge :: mg_matrix where
  "ex_edge = \<lparr>vmult = (\<lambda>l dst src. src), Tvmult = (\<lambda>l dst src. src)\<rparr>"

definition ex_transfer :: mg_transfer where
  "ex_transfer = \<lparr>prolongate = (\<lambda>l dst src. src),
                   restrict_and_add = (\<lambda>l dst src. map2 (+) dst src)\<rparr>"

definition ex_mg :: "nat \<Rightarrow> nat \<Rightarrow> mg_matrix option \<Rightarrow> mg_matrix option \<Rightarrow> multigrid" where
  "ex_mg lo hi down up =
     \<lparr>minlevel = lo, maxlevel = hi, matrix = ex_matrix,
      coarse = (\<lambda>l dst src. map (\<lambda>a. a / 2) src),
      transfer = ex_transfer,
      pre_smooth = (\<lambda>l x d. map2 (\<lambda>a b. a / 2 + b / 4) x d),
      post_smooth = (\<lambda>l x d. map2 (\<lambda>a b. a / 2 + b / 4) x d),
      edge_down = down, edge_up = up\<rparr>"

definition ex_resized :: mg_state where
  "ex_resized = \<lparr>defect = [0 \<mapsto> [8, 16], 1 \<mapsto> [8, 16], 2 \<mapsto> [8, 16]],
                 solution = [0 \<mapsto> [0, 0], 1 \<mapsto> [0, 0], 2 \<mapsto> [0, 0]],
                 t = [0 \<mapsto> [0, 0], 1 \<mapsto> [0, 0], 2 \<mapsto> [0, 0]], trace = []\<rparr>"

definition ex_state :: mg_state where
  "ex_state = \<lparr>defect = [0 \<mapsto> [8, 16], 1 \<mapsto> [8, 16], 2 \<mapsto> [8, 16]],
               solution = Map.empty, t = Map.empty, trace = []\<rparr>"

text \<open>The frame at level 2 after its pre-smoothing and line 62.\<close>

definition ex_smoothed :: mg_state where
  "ex_smoothed = \<lparr>defect = [0 \<mapsto> [8, 16], 1 \<mapsto> [8, 16], 2 \<mapsto> [8, 16]],
                  solution = [0 \<mapsto> [0, 0], 1 \<mapsto> [0, 0], 2 \<mapsto> [2, 4]],
                  t = [0 \<mapsto> [0, 0], 1 \<mapsto> [0, 0], 2 \<mapsto> [4, 8]],
                  trace = [Enter 2, PreSmooth 2, MatrixVmult 2]\<rparr>"

section \<open>Basic facts\<close>

declare restrict_cascade.simps [simp del]
declare level_mgstep.simps [simp del]
declare reinit_levels.simps [simp del]
declare mgstep_events.simps [simp del]

subsection \<open>When a statement returns\<close>

lemma seq_Inr_iff: "seq r f = Inr y \<longleftrightarrow> (\<exists>x. r = Inr x \<and> f x = Inr y)"
  by (cases r) (simp_all add: seq_def)

lemma zero_solution_Inr:
  "zero_solution level s = Inr s' \<longleftrightarrow>
   (\<exists>x. solution s level = Some x \<and> s' = s\<lparr>solution := (solution s)(level \<mapsto> zero_vec x)\<rparr>)"
  by (auto simp: zero_solution_def split: option.splits)

lemma coarse_solve_Inr:
  "coarse_solve mg level s = Inr s' \<longleftrightarrow>
   (\<exists>x d. solution s level = Some x \<and> defect s level = Some d \<and>
      s' = s\<lparr>solution := (solution s)(level \<mapsto> coarse mg level x d),
             trace := trace s @ [CoarseSolve level]\<rparr>)"
  by (auto simp: coarse_solve_def split: option.splits)

lemma pre_smoothing_Inr:
  "pre_smoothing mg level s = Inr s' \<longleftrightarrow>
   (\<exists>x d. solution s level = Some x \<and> defect s level = Some d \<and>
      s' = s\<lparr>solution := (solution s)(level \<mapsto> pre_smooth mg level x d),
             trace := trace s @ [PreSmooth level]\<rparr>)"
  by (auto simp: pre_smoothing_def split: option.splits)

lemma post_smoothing_Inr:
  "post_smoothing mg level s = Inr s' \<longleftrightarrow>
   (\<exists>x d. solution s level = Some x \<and> defect s level = Some d \<and>
      s' = s\<lparr>solution := (solution s)(level \<mapsto> post_smooth mg level x d),
             trace := trace s @ [PostSmooth level]\<rparr>)"
  by (auto simp: post_smoothing_def split: option.splits)

lemma residual_Inr:
  "residual mg level s = Inr s' \<longleftrightarrow>
   (\<exists>y x. t s level = Some y \<and> solution s level = Some x \<and>
      s' = s\<lparr>t := (t s)(level \<mapsto> vmult (matrix mg) level y x),
             trace := trace s @ [MatrixVmult level]\<rparr>)"
  by (auto simp: residual_def split: option.splits)

lemma zero_t_Inr:
  "zero_t k s = Inr s' \<longleftrightarrow>
   (\<exists>y. t s k = Some y \<and> s' = s\<lparr>t := (t s)(k \<mapsto> zero_vec y)\<rparr>)"
  by (auto simp: zero_t_def split: option.splits)

lemma edge_down_vmult_Inr:
  "edge_down_vmult e level s = Inr s' \<longleftrightarrow>
   (\<exists>y x. t s (level - 1) = Some y \<and> solution s level = Some x \<and>
      s' = s\<lparr>t := (t s)(level - 1 \<mapsto> vmult e level y x),
             trace := trace s @ [EdgeDownVmult level]\<rparr>)"
  by (auto simp: edge_down_vmult_def split: option.splits)

lemma restriction_Inr:
  "restriction mg l s = Inr s' \<longleftrightarrow>
   (\<exists>y z. t s (l - 1) = Some y \<and> t s l = Some z \<and>
      s' = s\<lparr>t := (t s)(l - 1 \<mapsto> restrict_and_add (transfer mg) l y z),
             trace := trace s @ [RestrictAndAdd l]\<rparr>)"
  by (auto simp: restriction_def split: option.splits)

lemma subtract_from_defect_Inr:
  "subtract_from_defect k s = Inr s' \<longleftrightarrow>
   (\<exists>d y. defect s k = Some d \<and> t s k = Some y \<and> length d = length y \<and>
      s' = s\<lparr>defect := (defect s)(k \<mapsto> map2 (-) d y)\<rparr>)"
  by (auto simp: subtract_from_defect_def vec_sub_def seq_def split: option.splits)

lemma prolongation_Inr:
  "prolongation mg level s = Inr s' \<longleftrightarrow>
   (\<exists>y x. t s level = Some y \<and> solution s (level - 1) = Some x \<and>
      s' = s\<lparr>t := (t s)(level \<mapsto> prolongate (transfer mg) level y x),
             trace := trace s @ [Prolongate level]\<rparr>)"
  by (auto simp: prolongation_def split: option.splits)

lemma add_correction_Inr:
  "add_correction level s = Inr s' \<longleftrightarrow>
   (\<exists>x y. solution s level = Some x \<and> t s level = Some y \<and> length x = length y \<and>
      s' = s\<lparr>solution := (solution s)(level \<mapsto> map2 (+) x y)\<rparr>)"
  by (auto simp: add_correction_def vec_add_def seq_def split: option.splits)

lemma edge_up_Tvmult_Inr:
  "edge_up_Tvmult e level s = Inr s' \<longleftrightarrow>
   (\<exists>y x. t s level = Some y \<and> solution s (level - 1) = Some x \<and>
      s' = s\<lparr>t := (t s)(level \<mapsto> Tvmult e level y x),
             trace := trace s @ [EdgeUpTvmult level]\<rparr>)"
  by (auto simp: edge_up_Tvmult_def split: option.splits)

lemma reinit_level_Inr:
  "reinit_level level s = Inr s' \<longleftrightarrow>
   (\<exists>d x y. defect s level = Some d \<and> solution s level = Some x \<and> t s level = Some y \<and>
      s' = s\<lparr>solution := (solution s)(level \<mapsto> reinit x d),
             t := (t s)(level \<mapsto> reinit y d)\<rparr>)"
  by (auto simp: reinit_level_def split: option.splits)


lemma edge_down_contribution_Inr:
  "edge_down_contribution mg level l s = Inr s' \<longleftrightarrow>
   (if l = level \<and> edge_down mg \<noteq> None
    then edge_down_vmult (the (edge_down mg)) level s = Inr s' else s' = s)"
  by (auto simp: edge_down_contribution_def split: option.splits)

lemma edge_up_correction_Inr:
  "edge_up_correction mg level s = Inr s' \<longleftrightarrow>
   (if edge_up mg \<noteq> None
    then \<exists>s1. edge_up_Tvmult (the (edge_up mg)) level s = Inr s1 \<and>
           subtract_from_defect level s1 = Inr s'
    else s' = s)"
  by (auto simp: edge_up_correction_def seq_Inr_iff split: option.splits)

lemmas stmt_Inr = zero_solution_Inr coarse_solve_Inr pre_smoothing_Inr post_smoothing_Inr
  residual_Inr zero_t_Inr edge_down_vmult_Inr restriction_Inr subtract_from_defect_Inr
  prolongation_Inr add_correction_Inr edge_up_Tvmult_Inr reinit_level_Inr seq_Inr_iff
  edge_down_contribution_Inr edge_up_correction_Inr


subsection \<open>Which vectors each statement writes\<close>

lemma writes_within_refl: "writes_within D S T s s"
  by (simp add: writes_within_def)

lemma writes_within_trans:
  "writes_within D1 S1 T1 s s1 \<Longrightarrow> writes_within D2 S2 T2 s1 s2 \<Longrightarrow>
   D1 \<union> D2 \<subseteq> D \<Longrightarrow> S1 \<union> S2 \<subseteq> S \<Longrightarrow> T1 \<union> T2 \<subseteq> T \<Longrightarrow> writes_within D S T s s2"
  unfolding writes_within_def by (metis Un_iff subsetD)

lemma writes_within_mono:
  "writes_within D1 S1 T1 s s1 \<Longrightarrow> D1 \<subseteq> D \<Longrightarrow> S1 \<subseteq> S \<Longrightarrow> T1 \<subseteq> T \<Longrightarrow> writes_within D S T s s1"
  unfolding writes_within_def by (metis subsetD)

lemma writes_enter: "writes_within {} {} {} s (enter level s)"
  by (simp add: writes_within_def enter_def)

lemma writes_zero_solution: "zero_solution level s = Inr s' \<Longrightarrow> writes_within {} {level} {} s s'"
  by (auto simp: writes_within_def zero_solution_Inr)

lemma writes_coarse_solve: "coarse_solve mg level s = Inr s' \<Longrightarrow> writes_within {} {level} {} s s'"
  by (auto simp: writes_within_def coarse_solve_Inr)

lemma writes_pre_smoothing: "pre_smoothing mg level s = Inr s' \<Longrightarrow> writes_within {} {level} {} s s'"
  by (auto simp: writes_within_def pre_smoothing_Inr)

lemma writes_post_smoothing: "post_smoothing mg level s = Inr s' \<Longrightarrow> writes_within {} {level} {} s s'"
  by (auto simp: writes_within_def post_smoothing_Inr)

lemma writes_residual: "residual mg level s = Inr s' \<Longrightarrow> writes_within {} {} {level} s s'"
  by (auto simp: writes_within_def residual_Inr)

lemma writes_zero_t: "zero_t k s = Inr s' \<Longrightarrow> writes_within {} {} {k} s s'"
  by (auto simp: writes_within_def zero_t_Inr)

lemma writes_edge_down_vmult:
  "edge_down_vmult e level s = Inr s' \<Longrightarrow> writes_within {} {} {level - 1} s s'"
  by (auto simp: writes_within_def edge_down_vmult_Inr)

lemma writes_edge_down_contribution:
  "edge_down_contribution mg level l s = Inr s' \<Longrightarrow> writes_within {} {} {l - 1} s s'"
  by (cases "l = level \<and> edge_down mg \<noteq> None")
     (auto simp: edge_down_contribution_Inr writes_within_refl dest: writes_edge_down_vmult)

lemma writes_restriction: "restriction mg l s = Inr s' \<Longrightarrow> writes_within {} {} {l - 1} s s'"
  by (auto simp: writes_within_def restriction_Inr)

lemma writes_subtract_from_defect:
  "subtract_from_defect k s = Inr s' \<Longrightarrow> writes_within {k} {} {} s s'"
  by (auto simp: writes_within_def subtract_from_defect_Inr)

lemma writes_prolongation: "prolongation mg level s = Inr s' \<Longrightarrow> writes_within {} {} {level} s s'"
  by (auto simp: writes_within_def prolongation_Inr)

lemma writes_add_correction: "add_correction level s = Inr s' \<Longrightarrow> writes_within {} {level} {} s s'"
  by (auto simp: writes_within_def add_correction_Inr)

lemma writes_edge_up_Tvmult:
  "edge_up_Tvmult e level s = Inr s' \<Longrightarrow> writes_within {} {} {level} s s'"
  by (auto simp: writes_within_def edge_up_Tvmult_Inr)

lemma writes_edge_up_correction:
  assumes "edge_up_correction mg level s = Inr s'"
  shows "writes_within (if edge_up mg = None then {} else {level}) {} {level} s s'"
proof (cases "edge_up mg")
  case None
  with assms show ?thesis by (simp add: edge_up_correction_def writes_within_refl)
next
  case (Some e)
  with assms obtain s1 where "edge_up_Tvmult e level s = Inr s1"
    and "subtract_from_defect level s1 = Inr s'"
    by (auto simp: edge_up_correction_def seq_Inr_iff)
  then have "writes_within {} {} {level} s s1" and "writes_within {level} {} {} s1 s'"
    by (simp_all add: writes_edge_up_Tvmult writes_subtract_from_defect)
  then have "writes_within {level} {} {level} s s'"
    by (rule writes_within_trans) simp_all
  with Some show ?thesis by simp
qed

lemma cascade_body_InrE:
  assumes "cascade_body mg level l s = Inr s'"
  obtains s1 s2 s3 where "zero_t (l - 1) s = Inr s1"
    and "edge_down_contribution mg level l s1 = Inr s2"
    and "restriction mg l s2 = Inr s3"
    and "subtract_from_defect (l - 1) s3 = Inr s'"
  using assms unfolding cascade_body_def seq_Inr_iff by blast

lemma writes_cascade_body:
  assumes "cascade_body mg level l s = Inr s'"
  shows "writes_within {l - 1} {} {l - 1} s s'"
proof -
  from assms obtain s1 s2 s3 where 1: "zero_t (l - 1) s = Inr s1"
    and 2: "edge_down_contribution mg level l s1 = Inr s2"
    and 3: "restriction mg l s2 = Inr s3"
    and 4: "subtract_from_defect (l - 1) s3 = Inr s'"
    by (rule cascade_body_InrE)
  have "writes_within {} {} {l - 1} s s2"
    by (rule writes_within_trans[OF writes_zero_t[OF 1] writes_edge_down_contribution[OF 2]]) simp_all
  then have "writes_within {} {} {l - 1} s s3"
    by (rule writes_within_trans[OF _ writes_restriction[OF 3]]) simp_all
  then show ?thesis
    by (rule writes_within_trans[OF _ writes_subtract_from_defect[OF 4]]) simp_all
qed

lemma restrict_cascade_Inr:
  "restrict_cascade mg level l s = Inr s' \<longleftrightarrow>
   (if minlevel mg < l
    then \<exists>s1. cascade_body mg level l s = Inr s1 \<and> restrict_cascade mg level (l - 1) s1 = Inr s'
    else s' = s)"
  by (subst restrict_cascade.simps) (auto simp: seq_Inr_iff)

lemma writes_restrict_cascade:
  "restrict_cascade mg level l s = Inr s' \<Longrightarrow> writes_within {..<l} {} {..<l} s s'"
proof (induction mg level l s rule: restrict_cascade.induct)
  case (1 mg level l s)
  show ?case
  proof (cases "minlevel mg < l")
    case False
    with "1.prems" show ?thesis by (simp add: restrict_cascade_Inr writes_within_refl)
  next
    case True
    with "1.prems" obtain s1 where b: "cascade_body mg level l s = Inr s1"
      and r: "restrict_cascade mg level (l - 1) s1 = Inr s'"
      by (auto simp: restrict_cascade_Inr)
    show ?thesis
      by (rule writes_within_trans[OF writes_cascade_body[OF b] "1.IH"[OF True r]])
         (use True in auto)
  qed
qed

lemma descend_InrE:
  assumes "descend mg level s = Inr s'"
  obtains s1 s2 where "pre_smoothing mg level s = Inr s1"
    and "residual mg level s1 = Inr s2"
    and "restrict_cascade mg level level s2 = Inr s'"
  using assms unfolding descend_def seq_Inr_iff by blast

lemma writes_descend:
  assumes "descend mg level s = Inr s'"
  shows "writes_within {..<level} {level} {..level} s s'"
proof -
  from assms obtain s1 s2 where 1: "pre_smoothing mg level s = Inr s1"
    and 2: "residual mg level s1 = Inr s2"
    and 3: "restrict_cascade mg level level s2 = Inr s'"
    by (rule descend_InrE)
  have "writes_within {} {level} {level} s s2"
    by (rule writes_within_trans[OF writes_pre_smoothing[OF 1] writes_residual[OF 2]]) simp_all
  then show ?thesis
    by (rule writes_within_trans[OF _ writes_restrict_cascade[OF 3]]) auto
qed

lemma ascend_InrE:
  assumes "ascend mg level s = Inr s'"
  obtains s1 s2 s3 s4 where "zero_t level s = Inr s1"
    and "prolongation mg level s1 = Inr s2"
    and "add_correction level s2 = Inr s3"
    and "edge_up_correction mg level s3 = Inr s4"
    and "post_smoothing mg level s4 = Inr s'"
  using assms unfolding ascend_def seq_Inr_iff by blast

lemma writes_ascend:
  assumes "ascend mg level s = Inr s'"
  shows "writes_within (if edge_up mg = None then {} else {level}) {level} {level} s s'"
proof -
  from assms obtain s1 s2 s3 s4 where 1: "zero_t level s = Inr s1"
    and 2: "prolongation mg level s1 = Inr s2"
    and 3: "add_correction level s2 = Inr s3"
    and 4: "edge_up_correction mg level s3 = Inr s4"
    and 5: "post_smoothing mg level s4 = Inr s'"
    by (rule ascend_InrE)
  have "writes_within {} {} {level} s s2"
    by (rule writes_within_trans[OF writes_zero_t[OF 1] writes_prolongation[OF 2]]) simp_all
  then have "writes_within {} {level} {level} s s3"
    by (rule writes_within_trans[OF _ writes_add_correction[OF 3]]) simp_all
  then have "writes_within (if edge_up mg = None then {} else {level}) {level} {level} s s4"
    by (rule writes_within_trans[OF _ writes_edge_up_correction[OF 4]]) simp_all
  then show ?thesis
    by (rule writes_within_trans[OF _ writes_post_smoothing[OF 5]]) simp_all
qed

lemma level_mgstep_Inr:
  "level_mgstep mg level s = Inr s' \<longleftrightarrow>
   (\<exists>s1. zero_solution level (enter level s) = Inr s1 \<and>
     (if level = minlevel mg then coarse_solve mg level s1 = Inr s'
      else level \<noteq> 0 \<and>
           (\<exists>s2 s3. descend mg level s1 = Inr s2 \<and>
              level_mgstep mg (level - 1) s2 = Inr s3 \<and> ascend mg level s3 = Inr s')))"
  by (subst level_mgstep.simps) (simp add: seq_Inr_iff cong: conj_cong)

lemma level_mgstep_cases [consumes 1, case_names coarsest finer]:
  assumes "level_mgstep mg level s = Inr s'"
  obtains s1 where "level = minlevel mg" and "zero_solution level (enter level s) = Inr s1"
      and "coarse_solve mg level s1 = Inr s'"
  | s1 s2 s3 where "level \<noteq> minlevel mg" and "level \<noteq> 0"
      and "zero_solution level (enter level s) = Inr s1"
      and "descend mg level s1 = Inr s2"
      and "level_mgstep mg (level - 1) s2 = Inr s3"
      and "ascend mg level s3 = Inr s'"
  using assms by (subst (asm) level_mgstep_Inr) (auto split: if_splits)

lemma writes_level_mgstep:
  "level_mgstep mg level s = Inr s' \<Longrightarrow>
   writes_within (if edge_up mg = None then {..<level} else {..level}) {..level} {..level} s s'"
proof (induction mg level s arbitrary: s' rule: level_mgstep.induct)
  case (1 mg level s)
  from "1.prems" show ?case
  proof (cases rule: level_mgstep_cases)
    case (coarsest s1)
    have "writes_within {} {level} {} s s1"
      by (rule writes_within_trans[OF writes_enter writes_zero_solution[OF coarsest(2)]]) simp_all
    then show ?thesis
      by (rule writes_within_trans[OF _ writes_coarse_solve[OF coarsest(3)]]) auto
  next
    case (finer s1 s2 s3)
    have a: "writes_within {} {level} {} s s1"
      by (rule writes_within_trans[OF writes_enter writes_zero_solution[OF finer(3)]]) simp_all
    have b: "writes_within {..<level} {level} {..level} s s2"
      by (rule writes_within_trans[OF a writes_descend[OF finer(4)]]) auto
    have "writes_within (if edge_up mg = None then {..<level - 1} else {..level - 1})
            {..level - 1} {..level - 1} s2 s3"
      by (rule "1.IH"[OF finer(1) finer(2) finer(5)])
    from b this have c: "writes_within {..<level} {..level} {..level} s s3"
      by (rule writes_within_trans) (use finer(2) in \<open>auto split: if_splits\<close>)
    show ?thesis
      by (rule writes_within_trans[OF c writes_ascend[OF finer(6)]]) (auto split: if_splits)
  qed
qed


lemma run_then_Inr_iff:
  "run_then r f = Some (Inr y) \<longleftrightarrow> (\<exists>x. r = Some (Inr x) \<and> f x = Inr y)"
  by (cases r) (auto simp: run_then_def seq_Inr_iff)

lemma vcycle_InrE:
  assumes "vcycle mg s = Some (Inr s')"
  obtains s1 where "resize_vectors mg s = Some (Inr s1)"
    and "level_mgstep mg (maxlevel mg) s1 = Inr s'"
  using assms unfolding vcycle_def run_then_Inr_iff by blast

subsection \<open>Running the example\<close>

lemmas ex_defs = ex_mg_def ex_state_def ex_resized_def ex_smoothed_def ex_matrix_def ex_edge_def
  ex_transfer_def

lemmas run_defs = vcycle_def run_then_def resize_vectors_def mgl_resize_def reinit_levels.simps
  next_level_def
  reinit_level_def seq_def reinit_def level_mgstep.simps zero_solution_def enter_def
  descend_def ascend_def coarse_solve_def pre_smoothing_def residual_def
  restrict_cascade.simps cascade_body_def zero_t_def edge_down_vmult_def
  edge_down_contribution_def restriction_def subtract_from_defect_def prolongation_def
  add_correction_def edge_up_correction_def edge_up_Tvmult_def post_smoothing_def
  vec_add_def vec_sub_def zero_vec_def before_recursion_def after_recursion_def
  correct_and_smooth_def scratch_at_def events_of_def

subsection \<open>The scratch vector across the recursive call\<close>

lemma descend_scratch:
  assumes "descend mg level s = Inr s2"
  shows "\<exists>y x. t s level = Some y \<and> solution s2 level = Some x \<and>
           t s2 level = Some (vmult (matrix mg) level y x)"
proof -
  from assms obtain s1 s1' where 1: "pre_smoothing mg level s = Inr s1"
    and 2: "residual mg level s1 = Inr s1'"
    and 3: "restrict_cascade mg level level s1' = Inr s2"
    by (rule descend_InrE)
  from 1 have a: "t s1 = t s" by (auto simp: pre_smoothing_Inr)
  from 2 obtain y x where b: "t s1 level = Some y" "solution s1 level = Some x"
    and c: "t s1' level = Some (vmult (matrix mg) level y x)" "solution s1' = solution s1"
    by (auto simp: residual_Inr)
  from writes_restrict_cascade[OF 3] have "t s2 level = t s1' level" "solution s2 level = solution s1' level"
    by (simp_all add: writes_within_def)
  with a b c show ?thesis by simp
qed

lemma before_recursion_InrE:
  assumes "before_recursion mg level s = Inr s2"
  obtains s1 where "zero_solution level (enter level s) = Inr s1" and "descend mg level s1 = Inr s2"
  using assms unfolding before_recursion_def seq_Inr_iff by blast

text \<open>Lines 87 to 107 are line 87, then lines 91 to 107.\<close>

lemma ascend_correct_and_smooth:
  "ascend mg level s = seq (zero_t level s) (correct_and_smooth mg level)"
  by (simp add: ascend_def correct_and_smooth_def seq_def split: sum.splits)

text \<open>A frame above \<open>minlevel\<close> is its part up to the return of the recursive call, then lines 87 to 107.\<close>

lemma level_mgstep_after_recursion:
  assumes "level \<noteq> minlevel mg" and "level \<noteq> 0"
  shows "level_mgstep mg level s = seq (after_recursion mg level s) (ascend mg level)"
  using assms
  by (subst level_mgstep.simps)
     (simp add: after_recursion_def before_recursion_def seq_def split: sum.splits)

subsection \<open>The trace of a cycle\<close>

lemma calls_of_Nil [simp]: "calls_of c [] = []"
  by (simp add: calls_of_def)

lemma calls_of_Cons [simp]:
  "calls_of c (e # es) = (if e = c (level_of e) then level_of e # calls_of c es else calls_of c es)"
  by (simp add: calls_of_def)

lemma calls_of_append [simp]: "calls_of c (xs @ ys) = calls_of c xs @ calls_of c ys"
  by (simp add: calls_of_def)

lemma calls_of_map_same: "(\<And>l. level_of (c l) = l) \<Longrightarrow> calls_of c (map c ls) = ls"
  by (induction ls) simp_all

lemma calls_of_map_other: "(\<And>l k. c' l \<noteq> c k) \<Longrightarrow> calls_of c (map c' ls) = []"
  by (induction ls) simp_all

lemma trace_cascade_body:
  assumes "cascade_body mg level l s = Inr s'"
  shows "trace s' = trace s @
           (if l = level \<and> edge_down mg \<noteq> None then [EdgeDownVmult level] else []) @
           [RestrictAndAdd l]"
proof -
  from assms obtain s1 s2 s3 where 1: "zero_t (l - 1) s = Inr s1"
    and 2: "edge_down_contribution mg level l s1 = Inr s2"
    and 3: "restriction mg l s2 = Inr s3"
    and 4: "subtract_from_defect (l - 1) s3 = Inr s'"
    by (rule cascade_body_InrE)
  from 1 have a: "trace s1 = trace s" by (auto simp: zero_t_Inr)
  from 2 have b: "trace s2 = trace s1 @
      (if l = level \<and> edge_down mg \<noteq> None then [EdgeDownVmult level] else [])"
    by (auto simp: edge_down_contribution_Inr edge_down_vmult_Inr split: if_splits)
  from 3 have c: "trace s3 = trace s2 @ [RestrictAndAdd l]" by (auto simp: restriction_Inr)
  from 4 have d: "trace s' = trace s3" by (auto simp: subtract_from_defect_Inr)
  from a b c d show ?thesis by simp
qed

lemma trace_restrict_cascade:
  "restrict_cascade mg level l s = Inr s' \<Longrightarrow> l \<le> level \<Longrightarrow>
   trace s' = trace s @
     (if l = level \<and> minlevel mg < l \<and> edge_down mg \<noteq> None then [EdgeDownVmult level] else []) @
     map RestrictAndAdd (rev [Suc (minlevel mg) ..< Suc l])"
proof (induction mg level l s rule: restrict_cascade.induct)
  case (1 mg level l s)
  show ?case
  proof (cases "minlevel mg < l")
    case False
    with "1.prems" show ?thesis by (simp add: restrict_cascade_Inr)
  next
    case True
    with "1.prems" obtain s1 where b: "cascade_body mg level l s = Inr s1"
      and r: "restrict_cascade mg level (l - 1) s1 = Inr s'"
      by (subst (asm) restrict_cascade_Inr) auto
    from True have u: "[Suc (minlevel mg) ..< Suc l] = [Suc (minlevel mg) ..< Suc (l - 1)] @ [l]"
      by (cases l) simp_all
    from True "1.prems"(2) have "l - 1 \<le> level" and "l - 1 \<noteq> level" by simp_all
    with "1.IH"[OF True r] trace_cascade_body[OF b] u True
    show ?thesis by simp
  qed
qed

lemma trace_descend:
  assumes "descend mg level s = Inr s'"
  shows "trace s' = trace s @ [PreSmooth level, MatrixVmult level] @ cascade_events mg level"
proof -
  from assms obtain s1 s2 where 1: "pre_smoothing mg level s = Inr s1"
    and 2: "residual mg level s1 = Inr s2"
    and 3: "restrict_cascade mg level level s2 = Inr s'"
    by (rule descend_InrE)
  from 1 have "trace s1 = trace s @ [PreSmooth level]" by (auto simp: pre_smoothing_Inr)
  moreover from 2 have "trace s2 = trace s1 @ [MatrixVmult level]" by (auto simp: residual_Inr)
  ultimately show ?thesis
    using trace_restrict_cascade[OF 3] by (simp add: cascade_events_def)
qed

lemma trace_edge_up_correction:
  assumes "edge_up_correction mg level s = Inr s'"
  shows "trace s' = trace s @ (if edge_up mg = None then [] else [EdgeUpTvmult level])"
proof (cases "edge_up mg")
  case None
  with assms show ?thesis by (simp add: edge_up_correction_def)
next
  case (Some e)
  with assms obtain s1 where "edge_up_Tvmult e level s = Inr s1"
    and "subtract_from_defect level s1 = Inr s'"
    by (auto simp: edge_up_correction_def seq_Inr_iff)
  then have "trace s1 = trace s @ [EdgeUpTvmult level]" and "trace s' = trace s1"
    by (auto simp: edge_up_Tvmult_Inr subtract_from_defect_Inr)
  with Some show ?thesis by simp
qed

lemma trace_ascend:
  assumes "ascend mg level s = Inr s'"
  shows "trace s' = trace s @ [Prolongate level] @
           (if edge_up mg = None then [] else [EdgeUpTvmult level]) @ [PostSmooth level]"
proof -
  from assms obtain s1 s2 s3 s4 where 1: "zero_t level s = Inr s1"
    and 2: "prolongation mg level s1 = Inr s2"
    and 3: "add_correction level s2 = Inr s3"
    and 4: "edge_up_correction mg level s3 = Inr s4"
    and 5: "post_smoothing mg level s4 = Inr s'"
    by (rule ascend_InrE)
  from 1 have "trace s1 = trace s" by (auto simp: zero_t_Inr)
  moreover from 2 have "trace s2 = trace s1 @ [Prolongate level]" by (auto simp: prolongation_Inr)
  moreover from 3 have "trace s3 = trace s2" by (auto simp: add_correction_Inr)
  moreover note trace_edge_up_correction[OF 4]
  moreover from 5 have "trace s' = trace s4 @ [PostSmooth level]" by (auto simp: post_smoothing_Inr)
  ultimately show ?thesis by simp
qed

lemma trace_level_mgstep:
  "level_mgstep mg level s = Inr s' \<Longrightarrow> trace s' = trace s @ mgstep_events mg level"
proof (induction mg level s arbitrary: s' rule: level_mgstep.induct)
  case (1 mg level s)
  from "1.prems" show ?case
  proof (cases rule: level_mgstep_cases)
    case (coarsest s1)
    from coarsest(2) have "trace s1 = trace s @ [Enter level]"
      by (auto simp: zero_solution_Inr enter_def)
    moreover from coarsest(3) have "trace s' = trace s1 @ [CoarseSolve level]"
      by (auto simp: coarse_solve_Inr)
    ultimately show ?thesis
      using coarsest(1) by (simp add: mgstep_events.simps)
  next
    case (finer s1 s2 s3)
    from finer(3) have "trace s1 = trace s @ [Enter level]"
      by (auto simp: zero_solution_Inr enter_def)
    moreover note trace_descend[OF finer(4)]
    moreover note "1.IH"[OF finer(1) finer(2) finer(5)]
    moreover note trace_ascend[OF finer(6)]
    ultimately show ?thesis
      using finer(1,2) by (subst mgstep_events.simps) simp
  qed
qed

lemma level_mgstep_above_minlevel:
  "level_mgstep mg level s = Inr s' \<Longrightarrow> minlevel mg \<le> level"
proof (induction mg level s arbitrary: s' rule: level_mgstep.induct)
  case (1 mg level s)
  from "1.prems" show ?case
  proof (cases rule: level_mgstep_cases)
    case (coarsest s1)
    then show ?thesis by simp
  next
    case (finer s1 s2 s3)
    from "1.IH"[OF finer(1) finer(2) finer(5)] finer(2) show ?thesis by simp
  qed
qed

lemma calls_of_cascade_events:
  "calls_of Enter (cascade_events mg level) = []"
  "calls_of CoarseSolve (cascade_events mg level) = []"
  "calls_of EdgeUpTvmult (cascade_events mg level) = []"
  by (simp_all add: cascade_events_def calls_of_map_other)

lemma enters_mgstep_events:
  "minlevel mg \<le> level \<Longrightarrow>
   calls_of Enter (mgstep_events mg level) = rev [minlevel mg ..< Suc level]"
proof (induction level rule: dec_induct)
  case base
  show ?case by (subst mgstep_events.simps) simp
next
  case (step n)
  then show ?case
    by (subst mgstep_events.simps) (simp add: calls_of_cascade_events)
qed

lemma coarse_solves_mgstep_events:
  "minlevel mg \<le> level \<Longrightarrow> calls_of CoarseSolve (mgstep_events mg level) = [minlevel mg]"
proof (induction level rule: dec_induct)
  case base
  show ?case by (subst mgstep_events.simps) simp
next
  case (step n)
  then show ?case
    by (subst mgstep_events.simps) (simp add: calls_of_cascade_events)
qed

lemma edge_ups_mgstep_events:
  "minlevel mg \<le> level \<Longrightarrow>
   calls_of EdgeUpTvmult (mgstep_events mg level) =
     (if edge_up mg = None then [] else [Suc (minlevel mg) ..< Suc level])"
proof (induction level rule: dec_induct)
  case base
  show ?case by (subst mgstep_events.simps) simp
next
  case (step n)
  then show ?case
    by (subst mgstep_events.simps) (simp add: calls_of_cascade_events)
qed

subsection \<open>The loop of the driver and the resize step in closed form\<close>

text \<open>
  Below \<open>2^32 - 1\<close> the counter of the loop does not wrap. A loop that is entered and
  returns a state has left through its condition, at a level above \<open>maxlevel\<close>: then
  \<open>maxlevel\<close> is below \<open>2^32 - 1\<close>.
\<close>

lemma next_level_Suc: "level < 2 ^ 32 - 1 \<Longrightarrow> next_level level = Suc level"
  by (simp add: next_level_def)

lemma next_level_less: "next_level level < 2 ^ 32"
  by (simp add: next_level_def)

lemma reinit_levels_bound_aux:
  assumes "reinit_levels mg level s = Some r"
  shows "\<forall>s'. r = Inr s' \<longrightarrow> level \<le> maxlevel mg \<longrightarrow> maxlevel mg < 2 ^ 32 - 1"
proof (rule reinit_levels.raw_induct[where
      P = "\<lambda>mg level s r. \<forall>s'. r = Inr s' \<longrightarrow> level \<le> maxlevel mg \<longrightarrow> maxlevel mg < 2 ^ 32 - 1",
      OF _ assms])
  fix loop :: "multigrid \<Rightarrow> nat \<Rightarrow> mg_state \<Rightarrow> (error + mg_state) option"
  fix mg level s r
  assume IH: "\<And>mg level s r. loop mg level s = Some r \<Longrightarrow>
      \<forall>s'. r = Inr s' \<longrightarrow> level \<le> maxlevel mg \<longrightarrow> maxlevel mg < 2 ^ 32 - 1"
  assume body: "(if level \<le> maxlevel mg
           then (case reinit_level level s of
                   Inl e \<Rightarrow> Some (Inl e)
                 | Inr s' \<Rightarrow> loop mg (next_level level) s')
           else Some (Inr s)) = Some r"
  show "\<forall>s'. r = Inr s' \<longrightarrow> level \<le> maxlevel mg \<longrightarrow> maxlevel mg < 2 ^ 32 - 1"
  proof (intro allI impI)
    fix s'
    assume r: "r = Inr s'" and le: "level \<le> maxlevel mg"
    with body obtain s1 where "loop mg (next_level level) s1 = Some (Inr s')"
      by (auto split: sum.splits)
    from IH[OF this] have a: "next_level level \<le> maxlevel mg \<longrightarrow> maxlevel mg < 2 ^ 32 - 1"
      by simp
    have b: "next_level level < 2 ^ 32" by (rule next_level_less)
    show "maxlevel mg < 2 ^ 32 - 1"
    proof (cases "next_level level \<le> maxlevel mg")
      case True
      with a show ?thesis by simp
    next
      case False
      with b show ?thesis by simp
    qed
  qed
qed

lemma reinit_levels_bound:
  "reinit_levels mg level s = Some (Inr s') \<Longrightarrow> level \<le> maxlevel mg \<Longrightarrow> maxlevel mg < 2 ^ 32 - 1"
  using reinit_levels_bound_aux by blast

lemma reinit_levels_closed:
  assumes "maxlevel mg < 2 ^ 32 - 1"
  shows "reinit_levels mg level s = Some (Inr s') \<longleftrightarrow>
   (\<forall>l. level \<le> l \<and> l \<le> maxlevel mg \<longrightarrow>
      defect s l \<noteq> None \<and> solution s l \<noteq> None \<and> t s l \<noteq> None) \<and>
   s' = s\<lparr>solution := (\<lambda>l. if level \<le> l \<and> l \<le> maxlevel mg
                            then map_option zero_vec (defect s l) else solution s l),
          t := (\<lambda>l. if level \<le> l \<and> l \<le> maxlevel mg
                     then map_option zero_vec (defect s l) else t s l)\<rparr>"
proof (induction "Suc (maxlevel mg) - level" arbitrary: level s)
  case 0
  then have above: "\<not> level \<le> maxlevel mg" by simp
  then have e: "\<And>f g. (\<lambda>l. if level \<le> l \<and> l \<le> maxlevel mg then f l else g l) = (g::nat \<Rightarrow> vec option)"
    by (auto simp: fun_eq_iff)
  from above show ?case by (subst reinit_levels.simps) (auto simp: e)
next
  case (Suc n)
  then have True: "level \<le> maxlevel mg" and n: "n = Suc (maxlevel mg) - Suc level" by simp_all
  with assms have nx: "next_level level = Suc level" by (simp add: next_level_Suc)
  show ?case
  proof (cases "defect s level \<noteq> None \<and> solution s level \<noteq> None \<and> t s level \<noteq> None")
    case False
    then have "reinit_level level s = Inl LevelOutOfRange"
      by (auto simp: reinit_level_def split: option.splits)
    with True have "reinit_levels mg level s \<noteq> Some (Inr s')"
      by (subst reinit_levels.simps) simp
    with False True show ?thesis by auto
  next
    case ok: True
    then obtain d x y where v: "defect s level = Some d" "solution s level = Some x"
      "t s level = Some y"
      by auto
    define s1 where "s1 = s\<lparr>solution := (solution s)(level \<mapsto> zero_vec d),
                            t := (t s)(level \<mapsto> zero_vec d)\<rparr>"
    from v have b: "reinit_level level s = Inr s1"
      by (simp add: reinit_level_def s1_def reinit_def zero_vec_def)
    with True nx have "reinit_levels mg level s = Some (Inr s') \<longleftrightarrow>
        reinit_levels mg (Suc level) s1 = Some (Inr s')"
      by (subst reinit_levels.simps) simp
    also note Suc.hyps(1)[OF n]
    also have "(\<forall>l. Suc level \<le> l \<and> l \<le> maxlevel mg \<longrightarrow>
           defect s1 l \<noteq> None \<and> solution s1 l \<noteq> None \<and> t s1 l \<noteq> None) \<longleftrightarrow>
        (\<forall>l. level \<le> l \<and> l \<le> maxlevel mg \<longrightarrow>
           defect s l \<noteq> None \<and> solution s l \<noteq> None \<and> t s l \<noteq> None)"
      using ok by (auto simp: s1_def le_Suc_eq Suc_le_eq) (metis le_neq_implies_less)+
    also have "s1\<lparr>solution := (\<lambda>l. if Suc level \<le> l \<and> l \<le> maxlevel mg
                          then map_option zero_vec (defect s1 l) else solution s1 l),
        t := (\<lambda>l. if Suc level \<le> l \<and> l \<le> maxlevel mg
                   then map_option zero_vec (defect s1 l) else t s1 l)\<rparr> =
        s\<lparr>solution := (\<lambda>l. if level \<le> l \<and> l \<le> maxlevel mg
                          then map_option zero_vec (defect s l) else solution s l),
        t := (\<lambda>l. if level \<le> l \<and> l \<le> maxlevel mg
                   then map_option zero_vec (defect s l) else t s l)\<rparr>"
      using True v by (auto simp: s1_def fun_eq_iff)
    finally show ?thesis .
  qed
qed

lemma resize_vectors_closed:
  "resize_vectors mg s = Some (Inr s') \<longleftrightarrow>
   minlevel mg \<le> maxlevel mg \<and> maxlevel mg < 2 ^ 32 - 1 \<and>
   (\<forall>l. minlevel mg \<le> l \<and> l \<le> maxlevel mg \<longrightarrow> defect s l \<noteq> None) \<and>
   s' = s\<lparr>solution := zeros_like mg (defect s), t := zeros_like mg (defect s)\<rparr>"
proof (cases "minlevel mg \<le> maxlevel mg")
  case False
  then show ?thesis by (simp add: resize_vectors_def mgl_resize_def)
next
  case True
  then have r: "resize_vectors mg s =
      reinit_levels mg (minlevel mg)
        (s\<lparr>solution := (\<lambda>l. if minlevel mg \<le> l \<and> l \<le> maxlevel mg then Some [] else None),
           t := (\<lambda>l. if minlevel mg \<le> l \<and> l \<le> maxlevel mg then Some [] else None)\<rparr>)"
    by (simp add: resize_vectors_def mgl_resize_def)
  show ?thesis
  proof (cases "maxlevel mg < 2 ^ 32 - 1")
    case False
    have "resize_vectors mg s \<noteq> Some (Inr s')"
    proof
      assume "resize_vectors mg s = Some (Inr s')"
      then have "maxlevel mg < 2 ^ 32 - 1"
        unfolding r using True by (rule reinit_levels_bound)
      with False show False by simp
    qed
    with False show ?thesis by simp
  next
    case bound: True
    with True r show ?thesis
      by (simp add: reinit_levels_closed[OF bound] zeros_like_def cong: if_cong)
  qed
qed

lemma trace_resize_vectors: "resize_vectors mg s = Some (Inr s') \<Longrightarrow> trace s' = trace s"
  by (simp add: resize_vectors_closed)

lemma writes_resize_vectors:
  "resize_vectors mg s = Some (Inr s') \<Longrightarrow> writes_within {} UNIV UNIV s s'"
  by (simp add: resize_vectors_closed writes_within_def)

text \<open>A cycle that returns a state has a level range below the wrap of line 128.\<close>

lemma vcycle_level_bound:
  assumes "vcycle mg s = Some (Inr s')"
  shows "minlevel mg \<le> maxlevel mg \<and> maxlevel mg < 2 ^ 32 - 1"
proof -
  from assms obtain s1 where "resize_vectors mg s = Some (Inr s1)"
    by (rule vcycle_InrE)
  then show ?thesis by (simp add: resize_vectors_closed)
qed

subsection \<open>The restriction cascade\<close>

lemma restriction_edge_down: "restriction (mg\<lparr>edge_down := e\<rparr>) l = restriction mg l"
  by (auto simp: restriction_def fun_eq_iff split: option.splits)

lemma cascade_body_below_top:
  "l \<noteq> level \<Longrightarrow> cascade_body (mg\<lparr>edge_down := e\<rparr>) level l s = cascade_body mg level l s"
  by (simp add: cascade_body_def edge_down_contribution_def restriction_edge_down)

lemma restrict_cascade_below_top:
  "l < level \<Longrightarrow>
   restrict_cascade (mg\<lparr>edge_down := e\<rparr>) level l s = restrict_cascade mg level l s"
proof (induction mg level l s rule: restrict_cascade.induct)
  case (1 mg level l s)
  show ?case
  proof (cases "minlevel mg < l")
    case False
    then show ?thesis by (simp add: restrict_cascade.simps)
  next
    case True
    with "1.prems" have "restrict_cascade (mg\<lparr>edge_down := e\<rparr>) level (l - 1) =
        restrict_cascade mg level (l - 1)"
      by (intro ext "1.IH") simp_all
    moreover have "restrict_cascade (mg\<lparr>edge_down := e\<rparr>) level l s =
        seq (cascade_body (mg\<lparr>edge_down := e\<rparr>) level l s)
            (restrict_cascade (mg\<lparr>edge_down := e\<rparr>) level (l - 1))"
      using True by (subst restrict_cascade.simps) simp
    moreover have "restrict_cascade mg level l s =
        seq (cascade_body mg level l s) (restrict_cascade mg level (l - 1))"
      using True by (subst restrict_cascade.simps) simp
    ultimately show ?thesis
      using "1.prems" by (simp add: cascade_body_below_top)
  qed
qed

lemma edge_down_base_cong:
  "solution s1 = solution s \<Longrightarrow> edge_down_base mg level l s1 y = edge_down_base mg level l s y"
  by (simp add: edge_down_base_def split: option.splits)

lemma edge_down_contribution_effect:
  assumes "edge_down_contribution mg level l s = Inr s'" and "t s (l - 1) = Some (zero_vec y)"
  shows "\<exists>b. edge_down_base mg level l s y = Some b \<and>
              t s' = (t s)(l - 1 \<mapsto> b) \<and> defect s' = defect s \<and> solution s' = solution s"
proof (cases "l = level \<and> edge_down mg \<noteq> None")
  case False
  with assms have "s' = s" by (simp add: edge_down_contribution_Inr)
  with False assms(2) show ?thesis by (auto simp: fun_eq_iff edge_down_base_def)
next
  case True
  then obtain e where e: "edge_down mg = Some e" and l: "l = level" by auto
  with assms(1) have "edge_down_vmult e level s = Inr s'"
    by (simp add: edge_down_contribution_def)
  with assms(2) l e show ?thesis
    by (auto simp: edge_down_vmult_Inr edge_down_base_def)
qed

lemma cascade_body_effect:
  assumes "cascade_body mg level l s = Inr s'" and "0 < l"
  shows "\<exists>y d z b. t s (l - 1) = Some y \<and> defect s (l - 1) = Some d \<and> t s l = Some z \<and>
           edge_down_base mg level l s y = Some b \<and>
           t s' (l - 1) = Some (restrict_and_add (transfer mg) l b z) \<and>
           length d = length (restrict_and_add (transfer mg) l b z) \<and>
           defect s' (l - 1) = Some (map2 (-) d (restrict_and_add (transfer mg) l b z))"
proof -
  from assms(1) obtain s1 s2 s3 where 1: "zero_t (l - 1) s = Inr s1"
    and 2: "edge_down_contribution mg level l s1 = Inr s2"
    and 3: "restriction mg l s2 = Inr s3"
    and 4: "subtract_from_defect (l - 1) s3 = Inr s'"
    by (rule cascade_body_InrE)
  from 1 obtain y where y: "t s (l - 1) = Some y"
    and s1: "t s1 = (t s)(l - 1 \<mapsto> zero_vec y)" "defect s1 = defect s" "solution s1 = solution s"
    by (auto simp: zero_t_Inr)
  from s1(1) have "t s1 (l - 1) = Some (zero_vec y)" by simp
  from edge_down_contribution_effect[OF 2 this] s1 edge_down_base_cong[OF s1(3)] obtain b
    where b: "edge_down_base mg level l s y = Some b"
      and s2: "t s2 = (t s)(l - 1 \<mapsto> b)" "defect s2 = defect s"
    by auto
  from assms(2) have ne: "l \<noteq> l - 1" by simp
  from 3 obtain z where "t s2 l = Some z"
    and "t s3 = (t s2)(l - 1 \<mapsto> restrict_and_add (transfer mg) l (the (t s2 (l - 1))) z)"
    and "defect s3 = defect s2"
    by (auto simp: restriction_Inr)
  with s2 ne have z: "t s l = Some z"
    and s3: "t s3 = (t s)(l - 1 \<mapsto> restrict_and_add (transfer mg) l b z)" "defect s3 = defect s"
    by simp_all
  from 4 s3 obtain d where "defect s (l - 1) = Some d"
    and "length d = length (restrict_and_add (transfer mg) l b z)"
    and "defect s' (l - 1) = Some (map2 (-) d (restrict_and_add (transfer mg) l b z))"
    and "t s' = t s3"
    by (auto simp: subtract_from_defect_Inr)
  with y z b s3 show ?thesis by simp
qed

lemma restrict_cascade_effect:
  "restrict_cascade mg level l0 s = Inr s' \<Longrightarrow> minlevel mg < l \<Longrightarrow> l \<le> l0 \<Longrightarrow>
   \<exists>y d z b. t s (l - 1) = Some y \<and> defect s (l - 1) = Some d \<and> t s' l = Some z \<and>
     edge_down_base mg level l s y = Some b \<and>
     t s' (l - 1) = Some (restrict_and_add (transfer mg) l b z) \<and>
     length d = length (restrict_and_add (transfer mg) l b z) \<and>
     defect s' (l - 1) = Some (map2 (-) d (restrict_and_add (transfer mg) l b z))"
proof (induction mg level l0 s rule: restrict_cascade.induct)
  case (1 mg level l0 s)
  from "1.prems" have top: "minlevel mg < l0" and pos: "0 < l" "0 < l0" by simp_all
  with "1.prems"(1) obtain s1 where b: "cascade_body mg level l0 s = Inr s1"
    and r: "restrict_cascade mg level (l0 - 1) s1 = Inr s'"
    by (subst (asm) restrict_cascade_Inr) auto
  note w1 = writes_cascade_body[OF b] and wr = writes_restrict_cascade[OF r]
  show ?case
  proof (cases "l = l0")
    case True
    from wr pos have "t s' (l0 - 1) = t s1 (l0 - 1)" "t s' l0 = t s1 l0"
      "defect s' (l0 - 1) = defect s1 (l0 - 1)"
      by (simp_all add: writes_within_def)
    moreover from w1 pos have "t s1 l0 = t s l0"
      by (simp add: writes_within_def)
    ultimately show ?thesis
      using cascade_body_effect[OF b pos(2)] True by simp
  next
    case False
    with "1.prems" have "l \<le> l0 - 1" by simp
    from "1.IH"[OF top r "1.prems"(2) this] obtain y d z c
      where e: "t s1 (l - 1) = Some y" "defect s1 (l - 1) = Some d" "t s' l = Some z"
        "edge_down_base mg level l s1 y = Some c"
        "t s' (l - 1) = Some (restrict_and_add (transfer mg) l c z)"
        "length d = length (restrict_and_add (transfer mg) l c z)"
        "defect s' (l - 1) = Some (map2 (-) d (restrict_and_add (transfer mg) l c z))"
      by blast
    from False "1.prems" pos have "l - 1 \<noteq> l0 - 1" by simp
    with w1 have "t s1 (l - 1) = t s (l - 1)" "defect s1 (l - 1) = defect s (l - 1)"
      and sol: "solution s1 = solution s"
      by (simp_all add: writes_within_def fun_eq_iff)
    with e(1,2) have "t s (l - 1) = Some y" "defect s (l - 1) = Some d"
      by simp_all
    moreover from e(4) have "edge_down_base mg level l s y = Some c"
      by (simp add: edge_down_base_cong[OF sol])
    ultimately have "t s (l - 1) = Some y" "defect s (l - 1) = Some d"
      "edge_down_base mg level l s y = Some c"
      by simp_all
    with e(3,5,6,7) show ?thesis by blast
  qed
qed

subsection \<open>Shapes are kept and the cycle returns\<close>

lemma shapedD:
  assumes "shaped n mg s" and "minlevel mg \<le> l" and "l \<le> maxlevel mg"
  obtains d x y where "defect s l = Some d" and "solution s l = Some x" and "t s l = Some y"
    and "length d = n l" and "length x = n l" and "length y = n l"
  using assms unfolding shaped_def by blast

lemma shaped_trace [simp]: "shaped n mg (s\<lparr>trace := tr\<rparr>) = shaped n mg s"
  by (simp add: shaped_def)

lemma shaped_solution:
  "shaped n mg s \<Longrightarrow> length v = n k \<Longrightarrow> shaped n mg (s\<lparr>solution := (solution s)(k \<mapsto> v)\<rparr>)"
  unfolding shaped_def by fastforce

lemma shaped_t:
  "shaped n mg s \<Longrightarrow> length v = n k \<Longrightarrow> shaped n mg (s\<lparr>t := (t s)(k \<mapsto> v)\<rparr>)"
  unfolding shaped_def by fastforce

lemma shaped_defect:
  "shaped n mg s \<Longrightarrow> length v = n k \<Longrightarrow> shaped n mg (s\<lparr>defect := (defect s)(k \<mapsto> v)\<rparr>)"
  unfolding shaped_def by fastforce

lemma ok_seq:
  assumes "\<exists>s1. r = Inr s1 \<and> shaped n mg s1"
    and "\<And>s1. shaped n mg s1 \<Longrightarrow> \<exists>s'. g s1 = Inr s' \<and> shaped n mg s'"
  shows "\<exists>s'. seq r g = Inr s' \<and> shaped n mg s'"
  using assms by (auto simp: seq_def)

lemma ok_zero_solution:
  assumes "shaped n mg s" and "minlevel mg \<le> level" and "level \<le> maxlevel mg"
  shows "\<exists>s'. zero_solution level s = Inr s' \<and> shaped n mg s'"
proof -
  from assms obtain x where "solution s level = Some x" "length x = n level"
    by (rule shapedD)
  with assms(1) show ?thesis
    by (simp add: zero_solution_def shaped_solution zero_vec_def)
qed

lemma ok_zero_t:
  assumes "shaped n mg s" and "minlevel mg \<le> level" and "level \<le> maxlevel mg"
  shows "\<exists>s'. zero_t level s = Inr s' \<and> shaped n mg s'"
proof -
  from assms obtain y where "t s level = Some y" "length y = n level"
    by (rule shapedD)
  with assms(1) show ?thesis
    by (simp add: zero_t_def shaped_t zero_vec_def)
qed

lemma ok_coarse_solve:
  assumes "keeps_shapes n mg" and "shaped n mg s" and "minlevel mg \<le> maxlevel mg"
  shows "\<exists>s'. coarse_solve mg (minlevel mg) s = Inr s' \<and> shaped n mg s'"
proof -
  from assms(2) _ assms(3) obtain x d where v: "solution s (minlevel mg) = Some x"
    "defect s (minlevel mg) = Some d" "length x = n (minlevel mg)" "length d = n (minlevel mg)"
    by (rule shapedD) simp
  with assms(1) have "length (coarse mg (minlevel mg) x d) = n (minlevel mg)"
    by (simp add: keeps_shapes_def)
  with v assms(2) show ?thesis
    by (simp add: coarse_solve_def shaped_solution)
qed

lemma ok_pre_smoothing:
  assumes "keeps_shapes n mg" and "shaped n mg s" and "minlevel mg < level" and "level \<le> maxlevel mg"
  shows "\<exists>s'. pre_smoothing mg level s = Inr s' \<and> shaped n mg s'"
proof -
  from assms(2) _ assms(4) obtain x d where v: "solution s level = Some x"
    "defect s level = Some d" "length x = n level" "length d = n level"
    by (rule shapedD) (use assms(3) in simp)
  with assms(1,3,4) have "length (pre_smooth mg level x d) = n level"
    by (simp add: keeps_shapes_def)
  with v assms(2) show ?thesis
    by (simp add: pre_smoothing_def shaped_solution)
qed

lemma ok_post_smoothing:
  assumes "keeps_shapes n mg" and "shaped n mg s" and "minlevel mg < level" and "level \<le> maxlevel mg"
  shows "\<exists>s'. post_smoothing mg level s = Inr s' \<and> shaped n mg s'"
proof -
  from assms(2) _ assms(4) obtain x d where v: "solution s level = Some x"
    "defect s level = Some d" "length x = n level" "length d = n level"
    by (rule shapedD) (use assms(3) in simp)
  with assms(1,3,4) have "length (post_smooth mg level x d) = n level"
    by (simp add: keeps_shapes_def)
  with v assms(2) show ?thesis
    by (simp add: post_smoothing_def shaped_solution)
qed

lemma ok_residual:
  assumes "keeps_shapes n mg" and "shaped n mg s" and "minlevel mg < level" and "level \<le> maxlevel mg"
  shows "\<exists>s'. residual mg level s = Inr s' \<and> shaped n mg s'"
proof -
  from assms(2) _ assms(4) obtain x y where v: "solution s level = Some x"
    "t s level = Some y" "length x = n level" "length y = n level"
    by (rule shapedD) (use assms(3) in simp)
  with assms(1,3,4) have "length (vmult (matrix mg) level y x) = n level"
    by (simp add: keeps_shapes_def)
  with v assms(2) show ?thesis
    by (simp add: residual_def shaped_t)
qed

lemma ok_edge_down_contribution:
  assumes "keeps_shapes n mg" and "shaped n mg s" and "minlevel mg < l" and "l \<le> maxlevel mg"
  shows "\<exists>s'. edge_down_contribution mg level l s = Inr s' \<and> shaped n mg s'"
proof (cases "l = level \<and> edge_down mg \<noteq> None")
  case False
  with assms(2) show ?thesis by (auto simp: edge_down_contribution_def)
next
  case True
  then obtain e where e: "edge_down mg = Some e" "l = level" by auto
  from assms(2) _ assms(4) obtain x where x: "solution s l = Some x" "length x = n l"
    by (rule shapedD) (use assms(3) in simp)
  from assms(2) obtain y where y: "t s (l - 1) = Some y" "length y = n (l - 1)"
    by (rule shapedD[of _ _ _ "l - 1"]) (use assms(3,4) in simp_all)
  from assms(1,3,4) e x y have "length (vmult e l y x) = n (l - 1)"
    by (simp add: keeps_shapes_def)
  with e x y assms(2) show ?thesis
    by (simp add: edge_down_contribution_def edge_down_vmult_def shaped_t)
qed

lemma ok_restriction:
  assumes "keeps_shapes n mg" and "shaped n mg s" and "minlevel mg < l" and "l \<le> maxlevel mg"
  shows "\<exists>s'. restriction mg l s = Inr s' \<and> shaped n mg s'"
proof -
  from assms(2) _ assms(4) obtain z where z: "t s l = Some z" "length z = n l"
    by (rule shapedD) (use assms(3) in simp)
  from assms(2) obtain y where y: "t s (l - 1) = Some y" "length y = n (l - 1)"
    by (rule shapedD[of _ _ _ "l - 1"]) (use assms(3,4) in simp_all)
  from assms(1,3,4) z y have "length (restrict_and_add (transfer mg) l y z) = n (l - 1)"
    by (simp add: keeps_shapes_def)
  with z y assms(2) show ?thesis
    by (simp add: restriction_def shaped_t)
qed

lemma ok_subtract_from_defect:
  assumes "shaped n mg s" and "minlevel mg \<le> k" and "k \<le> maxlevel mg"
  shows "\<exists>s'. subtract_from_defect k s = Inr s' \<and> shaped n mg s'"
proof -
  from assms obtain d y where "defect s k = Some d" "t s k = Some y"
    "length d = n k" "length y = n k"
    by (rule shapedD)
  with assms(1) show ?thesis
    by (simp add: subtract_from_defect_def vec_sub_def seq_def shaped_defect)
qed

lemma ok_cascade_body:
  assumes "keeps_shapes n mg" and "shaped n mg s" and "minlevel mg < l" and "l \<le> maxlevel mg"
  shows "\<exists>s'. cascade_body mg level l s = Inr s' \<and> shaped n mg s'"
  unfolding cascade_body_def
proof (intro ok_seq)
  from assms show "\<exists>s1. zero_t (l - 1) s = Inr s1 \<and> shaped n mg s1"
    by (intro ok_zero_t) simp_all
  from assms show "\<exists>s'. edge_down_contribution mg level l s1 = Inr s' \<and> shaped n mg s'"
    if "shaped n mg s1" for s1
    using that by (intro ok_edge_down_contribution)
  from assms show "\<exists>s'. restriction mg l s1 = Inr s' \<and> shaped n mg s'"
    if "shaped n mg s1" for s1
    using that by (intro ok_restriction)
  from assms show "\<exists>s'. subtract_from_defect (l - 1) s1 = Inr s' \<and> shaped n mg s'"
    if "shaped n mg s1" for s1
    using that by (intro ok_subtract_from_defect) simp_all
qed

lemma ok_restrict_cascade:
  "keeps_shapes n mg \<Longrightarrow> shaped n mg s \<Longrightarrow> l \<le> maxlevel mg \<Longrightarrow>
   \<exists>s'. restrict_cascade mg level l s = Inr s' \<and> shaped n mg s'"
proof (induction mg level l s rule: restrict_cascade.induct)
  case (1 mg level l s)
  show ?case
  proof (cases "minlevel mg < l")
    case False
    with "1.prems" show ?thesis by (simp add: restrict_cascade.simps)
  next
    case True
    have "\<exists>s'. seq (cascade_body mg level l s) (restrict_cascade mg level (l - 1)) = Inr s' \<and>
        shaped n mg s'"
    proof (rule ok_seq)
      from "1.prems" True show "\<exists>s1. cascade_body mg level l s = Inr s1 \<and> shaped n mg s1"
        by (intro ok_cascade_body)
      show "\<exists>s'. restrict_cascade mg level (l - 1) s1 = Inr s' \<and> shaped n mg s'"
        if "shaped n mg s1" for s1
        using "1.IH"[OF True "1.prems"(1) that] "1.prems"(3) by simp
    qed
    with True show ?thesis by (subst restrict_cascade.simps) simp
  qed
qed

lemma ok_descend:
  assumes "keeps_shapes n mg" and "shaped n mg s" and "minlevel mg < level" and "level \<le> maxlevel mg"
  shows "\<exists>s'. descend mg level s = Inr s' \<and> shaped n mg s'"
  unfolding descend_def
proof (intro ok_seq)
  from assms show "\<exists>s1. pre_smoothing mg level s = Inr s1 \<and> shaped n mg s1"
    by (intro ok_pre_smoothing)
  from assms show "\<exists>s'. residual mg level s1 = Inr s' \<and> shaped n mg s'"
    if "shaped n mg s1" for s1
    using that by (intro ok_residual)
  from assms show "\<exists>s'. restrict_cascade mg level level s1 = Inr s' \<and> shaped n mg s'"
    if "shaped n mg s1" for s1
    using that by (intro ok_restrict_cascade)
qed

lemma ok_prolongation:
  assumes "keeps_shapes n mg" and "shaped n mg s" and "minlevel mg < level" and "level \<le> maxlevel mg"
  shows "\<exists>s'. prolongation mg level s = Inr s' \<and> shaped n mg s'"
proof -
  from assms(2) _ assms(4) obtain y where y: "t s level = Some y" "length y = n level"
    by (rule shapedD) (use assms(3) in simp)
  from assms(2) obtain x where x: "solution s (level - 1) = Some x" "length x = n (level - 1)"
    by (rule shapedD[of _ _ _ "level - 1"]) (use assms(3,4) in simp_all)
  from assms(1,3,4) x y have "length (prolongate (transfer mg) level y x) = n level"
    by (simp add: keeps_shapes_def)
  with x y assms(2) show ?thesis
    by (simp add: prolongation_def shaped_t)
qed

lemma ok_add_correction:
  assumes "shaped n mg s" and "minlevel mg \<le> level" and "level \<le> maxlevel mg"
  shows "\<exists>s'. add_correction level s = Inr s' \<and> shaped n mg s'"
proof -
  from assms obtain x y where "solution s level = Some x" "t s level = Some y"
    "length x = n level" "length y = n level"
    by (rule shapedD)
  with assms(1) show ?thesis
    by (simp add: add_correction_def vec_add_def seq_def shaped_solution)
qed

lemma ok_edge_up_Tvmult:
  assumes "keeps_shapes n mg" and "shaped n mg s" and "minlevel mg < level" and "level \<le> maxlevel mg"
    and "edge_up mg = Some e"
  shows "\<exists>s'. edge_up_Tvmult e level s = Inr s' \<and> shaped n mg s'"
proof -
  from assms(2) _ assms(4) obtain y where y: "t s level = Some y" "length y = n level"
    by (rule shapedD) (use assms(3) in simp)
  from assms(2) obtain x where x: "solution s (level - 1) = Some x" "length x = n (level - 1)"
    by (rule shapedD[of _ _ _ "level - 1"]) (use assms(3,4) in simp_all)
  from assms(1,3,4,5) x y have "length (Tvmult e level y x) = n level"
    by (simp add: keeps_shapes_def)
  with x y assms(2) show ?thesis
    by (simp add: edge_up_Tvmult_def shaped_t)
qed

lemma ok_edge_up_correction:
  assumes "keeps_shapes n mg" and "shaped n mg s" and "minlevel mg < level" and "level \<le> maxlevel mg"
  shows "\<exists>s'. edge_up_correction mg level s = Inr s' \<and> shaped n mg s'"
proof (cases "edge_up mg")
  case None
  with assms(2) show ?thesis by (simp add: edge_up_correction_def)
next
  case (Some e)
  have "\<exists>s'. seq (edge_up_Tvmult e level s) (subtract_from_defect level) = Inr s' \<and> shaped n mg s'"
  proof (rule ok_seq)
    from assms Some show "\<exists>s1. edge_up_Tvmult e level s = Inr s1 \<and> shaped n mg s1"
      by (intro ok_edge_up_Tvmult)
    from assms show "\<exists>s'. subtract_from_defect level s1 = Inr s' \<and> shaped n mg s'"
      if "shaped n mg s1" for s1
      using that by (intro ok_subtract_from_defect) simp_all
  qed
  with Some show ?thesis by (simp add: edge_up_correction_def)
qed

lemma ok_ascend:
  assumes "keeps_shapes n mg" and "shaped n mg s" and "minlevel mg < level" and "level \<le> maxlevel mg"
  shows "\<exists>s'. ascend mg level s = Inr s' \<and> shaped n mg s'"
  unfolding ascend_def
proof (intro ok_seq)
  from assms show "\<exists>s1. zero_t level s = Inr s1 \<and> shaped n mg s1"
    by (intro ok_zero_t) simp_all
  from assms show "\<exists>s'. prolongation mg level s1 = Inr s' \<and> shaped n mg s'"
    if "shaped n mg s1" for s1
    using that by (intro ok_prolongation)
  from assms show "\<exists>s'. add_correction level s1 = Inr s' \<and> shaped n mg s'"
    if "shaped n mg s1" for s1
    using that by (intro ok_add_correction) simp_all
  from assms show "\<exists>s'. edge_up_correction mg level s1 = Inr s' \<and> shaped n mg s'"
    if "shaped n mg s1" for s1
    using that by (intro ok_edge_up_correction)
  from assms show "\<exists>s'. post_smoothing mg level s1 = Inr s' \<and> shaped n mg s'"
    if "shaped n mg s1" for s1
    using that by (intro ok_post_smoothing)
qed

lemma ok_level_mgstep:
  "keeps_shapes n mg \<Longrightarrow> shaped n mg s \<Longrightarrow> minlevel mg \<le> level \<Longrightarrow> level \<le> maxlevel mg \<Longrightarrow>
   \<exists>s'. level_mgstep mg level s = Inr s' \<and> shaped n mg s'"
proof (induction mg level s rule: level_mgstep.induct)
  case (1 mg level s)
  from "1.prems" have z: "\<exists>s1. zero_solution level (enter level s) = Inr s1 \<and> shaped n mg s1"
    by (intro ok_zero_solution) (simp_all add: enter_def)
  show ?case
  proof (cases "level = minlevel mg")
    case True
    have "\<exists>s'. seq (zero_solution level (enter level s)) (coarse_solve mg level) = Inr s' \<and>
        shaped n mg s'"
      using z
    proof (rule ok_seq)
      from "1.prems" True show "\<exists>s'. coarse_solve mg level s1 = Inr s' \<and> shaped n mg s'"
        if "shaped n mg s1" for s1
        using that ok_coarse_solve[of n mg s1] by simp
    qed
    with True show ?thesis by (subst level_mgstep.simps) simp
  next
    case False
    with "1.prems" have above: "minlevel mg < level" and pos: "level \<noteq> 0" by simp_all
    have "\<exists>s'. seq (zero_solution level (enter level s)) (\<lambda>s.
         seq (descend mg level s) (\<lambda>s.
         seq (level_mgstep mg (level - 1) s) (ascend mg level))) = Inr s' \<and> shaped n mg s'"
      using z
    proof (intro ok_seq)
      from "1.prems" above show "\<exists>s'. descend mg level s1 = Inr s' \<and> shaped n mg s'"
        if "shaped n mg s1" for s1
        using that by (intro ok_descend)
      show "\<exists>s'. level_mgstep mg (level - 1) s1 = Inr s' \<and> shaped n mg s'"
        if "shaped n mg s1" for s1
        using "1.IH"[OF False pos "1.prems"(1) that] above "1.prems"(4) by simp
      from "1.prems" above show "\<exists>s'. ascend mg level s1 = Inr s' \<and> shaped n mg s'"
        if "shaped n mg s1" for s1
        using that by (intro ok_ascend)
    qed
    with False pos show ?thesis by (subst level_mgstep.simps) simp
  qed
qed

lemma shaped_resize_vectors:
  assumes "resize_vectors mg s = Some (Inr s1)"
    and "\<forall>l. minlevel mg \<le> l \<and> l \<le> maxlevel mg \<longrightarrow> (\<exists>d. defect s l = Some d \<and> length d = n l)"
  shows "shaped n mg s1"
  using assms by (auto simp: resize_vectors_closed shaped_def zeros_like_def zero_vec_def)

subsection \<open>Scaling\<close>

lemma linear_opD: "linear_op f \<Longrightarrow> f l (smult c x) (smult c y) = smult c (f l x y)"
  by (simp add: linear_op_def)

lemma length_smult [simp]: "length (smult c v) = length v"
  by (simp add: smult_def)

lemma zero_vec_smult [simp]: "zero_vec (smult c v) = zero_vec v"
  by (simp add: zero_vec_def)

lemma smult_zero_vec [simp]: "smult c (zero_vec v) = zero_vec v"
  by (simp add: zero_vec_def smult_def)

lemma smult_map2_diff: "map2 (-) (smult c v) (smult c w) = smult c (map2 (-) v w)"
  by (induction v w rule: list_induct2') (simp_all add: smult_def right_diff_distrib)

lemma smult_map2_add: "map2 (+) (smult c v) (smult c w) = smult c (map2 (+) v w)"
  by (induction v w rule: list_induct2') (simp_all add: smult_def distrib_left)

lemma scaled_sel [simp]:
  "defect (scaled c s) l = map_option (smult c) (defect s l)"
  "solution (scaled c s) l = map_option (smult c) (solution s l)"
  "t (scaled c s) l = map_option (smult c) (t s l)"
  "trace (scaled c s) = trace s"
  by (simp_all add: scaled_def scale_object_def)

lemma scaled_upd:
  "scaled c (s\<lparr>solution := (solution s)(k \<mapsto> v)\<rparr>) =
     (scaled c s)\<lparr>solution := (solution (scaled c s))(k \<mapsto> smult c v)\<rparr>"
  "scaled c (s\<lparr>t := (t s)(k \<mapsto> v)\<rparr>) = (scaled c s)\<lparr>t := (t (scaled c s))(k \<mapsto> smult c v)\<rparr>"
  "scaled c (s\<lparr>defect := (defect s)(k \<mapsto> v)\<rparr>) =
     (scaled c s)\<lparr>defect := (defect (scaled c s))(k \<mapsto> smult c v)\<rparr>"
  "scaled c (s\<lparr>trace := tr\<rparr>) = (scaled c s)\<lparr>trace := tr\<rparr>"
  by (simp_all add: scaled_def scale_object_def fun_eq_iff)

lemma scaled_zero_solution:
  "zero_solution level s = Inr s' \<Longrightarrow> zero_solution level (scaled c s) = Inr (scaled c s')"
  by (auto simp: zero_solution_Inr scaled_upd)

lemma scaled_enter: "enter level (scaled c s) = scaled c (enter level s)"
  by (simp add: enter_def scaled_upd)

lemma scaled_zero_t:
  "zero_t k s = Inr s' \<Longrightarrow> zero_t k (scaled c s) = Inr (scaled c s')"
  by (auto simp: zero_t_Inr scaled_upd)

lemma scaled_coarse_solve:
  "linear_mg mg \<Longrightarrow> coarse_solve mg level s = Inr s' \<Longrightarrow>
   coarse_solve mg level (scaled c s) = Inr (scaled c s')"
  by (auto simp: coarse_solve_Inr scaled_upd linear_mg_def linear_opD)

lemma scaled_pre_smoothing:
  "linear_mg mg \<Longrightarrow> pre_smoothing mg level s = Inr s' \<Longrightarrow>
   pre_smoothing mg level (scaled c s) = Inr (scaled c s')"
  by (auto simp: pre_smoothing_Inr scaled_upd linear_mg_def linear_opD)

lemma scaled_post_smoothing:
  "linear_mg mg \<Longrightarrow> post_smoothing mg level s = Inr s' \<Longrightarrow>
   post_smoothing mg level (scaled c s) = Inr (scaled c s')"
  by (auto simp: post_smoothing_Inr scaled_upd linear_mg_def linear_opD)

lemma scaled_residual:
  "linear_mg mg \<Longrightarrow> residual mg level s = Inr s' \<Longrightarrow>
   residual mg level (scaled c s) = Inr (scaled c s')"
  by (auto simp: residual_Inr scaled_upd linear_mg_def linear_opD)

lemma scaled_restriction:
  "linear_mg mg \<Longrightarrow> restriction mg l s = Inr s' \<Longrightarrow>
   restriction mg l (scaled c s) = Inr (scaled c s')"
  by (auto simp: restriction_Inr scaled_upd linear_mg_def linear_opD)

lemma scaled_prolongation:
  "linear_mg mg \<Longrightarrow> prolongation mg level s = Inr s' \<Longrightarrow>
   prolongation mg level (scaled c s) = Inr (scaled c s')"
  by (auto simp: prolongation_Inr scaled_upd linear_mg_def linear_opD)

lemma scaled_subtract_from_defect:
  "subtract_from_defect k s = Inr s' \<Longrightarrow>
   subtract_from_defect k (scaled c s) = Inr (scaled c s')"
  by (auto simp: subtract_from_defect_Inr scaled_upd smult_map2_diff)

lemma scaled_add_correction:
  "add_correction level s = Inr s' \<Longrightarrow> add_correction level (scaled c s) = Inr (scaled c s')"
  by (auto simp: add_correction_Inr scaled_upd smult_map2_add)

lemma scaled_edge_down_contribution:
  assumes "linear_mg mg" and "edge_down_contribution mg level l s = Inr s'"
  shows "edge_down_contribution mg level l (scaled c s) = Inr (scaled c s')"
proof (cases "l = level \<and> edge_down mg \<noteq> None")
  case False
  with assms(2) have "s' = s" by (simp add: edge_down_contribution_Inr)
  with False show ?thesis by (auto simp: edge_down_contribution_def)
next
  case True
  then obtain e where e: "edge_down mg = Some e" "l = level" by auto
  with assms(1) have "linear_op (vmult e)" by (simp add: linear_mg_def)
  moreover from e assms(2) have "edge_down_vmult e level s = Inr s'"
    by (simp add: edge_down_contribution_def)
  ultimately have "edge_down_vmult e level (scaled c s) = Inr (scaled c s')"
    by (auto simp: edge_down_vmult_Inr scaled_upd linear_opD)
  with e show ?thesis by (simp add: edge_down_contribution_def)
qed

lemma scaled_edge_up_correction:
  assumes "linear_mg mg" and "edge_up_correction mg level s = Inr s'"
  shows "edge_up_correction mg level (scaled c s) = Inr (scaled c s')"
proof (cases "edge_up mg")
  case None
  with assms(2) show ?thesis by (auto simp: edge_up_correction_def)
next
  case (Some e)
  with assms(1) have l: "linear_op (Tvmult e)" by (simp add: linear_mg_def)
  from Some assms(2) obtain s1 where 1: "edge_up_Tvmult e level s = Inr s1"
    and 2: "subtract_from_defect level s1 = Inr s'"
    by (auto simp: edge_up_correction_def seq_Inr_iff)
  from 1 l have "edge_up_Tvmult e level (scaled c s) = Inr (scaled c s1)"
    by (auto simp: edge_up_Tvmult_Inr scaled_upd linear_opD)
  with scaled_subtract_from_defect[OF 2, of c] Some show ?thesis
    by (simp add: edge_up_correction_def seq_def)
qed

lemma scaled_cascade_body:
  assumes "linear_mg mg" and "cascade_body mg level l s = Inr s'"
  shows "cascade_body mg level l (scaled c s) = Inr (scaled c s')"
proof -
  from assms(2) obtain s1 s2 s3 where 1: "zero_t (l - 1) s = Inr s1"
    and 2: "edge_down_contribution mg level l s1 = Inr s2"
    and 3: "restriction mg l s2 = Inr s3"
    and 4: "subtract_from_defect (l - 1) s3 = Inr s'"
    by (rule cascade_body_InrE)
  from scaled_zero_t[OF 1, of c] scaled_edge_down_contribution[OF assms(1) 2, of c]
    scaled_restriction[OF assms(1) 3, of c] scaled_subtract_from_defect[OF 4, of c]
  show ?thesis by (simp add: cascade_body_def seq_def)
qed

lemma scaled_restrict_cascade:
  "linear_mg mg \<Longrightarrow> restrict_cascade mg level l s = Inr s' \<Longrightarrow>
   restrict_cascade mg level l (scaled c s) = Inr (scaled c s')"
proof (induction mg level l s rule: restrict_cascade.induct)
  case (1 mg level l s)
  show ?case
  proof (cases "minlevel mg < l")
    case False
    with "1.prems" show ?thesis by (simp add: restrict_cascade_Inr)
  next
    case True
    with "1.prems" obtain s1 where b: "cascade_body mg level l s = Inr s1"
      and r: "restrict_cascade mg level (l - 1) s1 = Inr s'"
      by (subst (asm) restrict_cascade_Inr) auto
    from "1.IH"[OF True "1.prems"(1) r] scaled_cascade_body[OF "1.prems"(1) b, of c] True
    show ?thesis by (subst restrict_cascade.simps) (simp add: seq_def)
  qed
qed

lemma scaled_descend:
  assumes "linear_mg mg" and "descend mg level s = Inr s'"
  shows "descend mg level (scaled c s) = Inr (scaled c s')"
proof -
  from assms(2) obtain s1 s2 where 1: "pre_smoothing mg level s = Inr s1"
    and 2: "residual mg level s1 = Inr s2"
    and 3: "restrict_cascade mg level level s2 = Inr s'"
    by (rule descend_InrE)
  from scaled_pre_smoothing[OF assms(1) 1, of c] scaled_residual[OF assms(1) 2, of c]
    scaled_restrict_cascade[OF assms(1) 3, of c]
  show ?thesis by (simp add: descend_def seq_def)
qed

lemma scaled_ascend:
  assumes "linear_mg mg" and "ascend mg level s = Inr s'"
  shows "ascend mg level (scaled c s) = Inr (scaled c s')"
proof -
  from assms(2) obtain s1 s2 s3 s4 where 1: "zero_t level s = Inr s1"
    and 2: "prolongation mg level s1 = Inr s2"
    and 3: "add_correction level s2 = Inr s3"
    and 4: "edge_up_correction mg level s3 = Inr s4"
    and 5: "post_smoothing mg level s4 = Inr s'"
    by (rule ascend_InrE)
  from scaled_zero_t[OF 1, of c] scaled_prolongation[OF assms(1) 2, of c]
    scaled_add_correction[OF 3, of c] scaled_edge_up_correction[OF assms(1) 4, of c]
    scaled_post_smoothing[OF assms(1) 5, of c]
  show ?thesis by (simp add: ascend_def seq_def)
qed

lemma scaled_level_mgstep:
  "linear_mg mg \<Longrightarrow> level_mgstep mg level s = Inr s' \<Longrightarrow>
   level_mgstep mg level (scaled c s) = Inr (scaled c s')"
proof (induction mg level s arbitrary: s' rule: level_mgstep.induct)
  case (1 mg level s)
  from "1.prems"(2) show ?case
  proof (cases rule: level_mgstep_cases)
    case (coarsest s1)
    from scaled_zero_solution[OF coarsest(2), of c]
      scaled_coarse_solve[OF "1.prems"(1) coarsest(3), of c] coarsest(1)
    show ?thesis by (subst level_mgstep.simps) (simp add: seq_def scaled_enter)
  next
    case (finer s1 s2 s3)
    from scaled_zero_solution[OF finer(3), of c] scaled_descend[OF "1.prems"(1) finer(4), of c]
      "1.IH"[OF finer(1,2) "1.prems"(1) finer(5)] scaled_ascend[OF "1.prems"(1) finer(6), of c]
      finer(1,2)
    show ?thesis by (subst level_mgstep.simps) (simp add: seq_def scaled_enter)
  qed
qed

lemma zeros_like_scale_object:
  "zeros_like mg (scale_object c D) = zeros_like mg D"
  "scale_object c (zeros_like mg D) = zeros_like mg D"
  by (auto simp: zeros_like_def scale_object_def fun_eq_iff option.map_comp o_def
           split: option.splits)

lemma scaled_resize_vectors:
  assumes "resize_vectors mg s = Some (Inr s')"
  shows "resize_vectors mg (s\<lparr>defect := scale_object c (defect s)\<rparr>) = Some (Inr (scaled c s'))"
proof -
  from assms have a: "minlevel mg \<le> maxlevel mg" "maxlevel mg < 2 ^ 32 - 1"
    and b: "\<forall>l. minlevel mg \<le> l \<and> l \<le> maxlevel mg \<longrightarrow> defect s l \<noteq> None"
    and c: "s' = s\<lparr>solution := zeros_like mg (defect s), t := zeros_like mg (defect s)\<rparr>"
    by (simp_all add: resize_vectors_closed)
  from b have "\<forall>l. minlevel mg \<le> l \<and> l \<le> maxlevel mg \<longrightarrow> scale_object c (defect s) l \<noteq> None"
    by (simp add: scale_object_def)
  with a have "resize_vectors mg (s\<lparr>defect := scale_object c (defect s)\<rparr>) =
      Some (Inr (s\<lparr>defect := scale_object c (defect s), solution := zeros_like mg (defect s),
             t := zeros_like mg (defect s)\<rparr>))"
    by (simp add: resize_vectors_closed zeros_like_scale_object)
  also have "s\<lparr>defect := scale_object c (defect s), solution := zeros_like mg (defect s),
             t := zeros_like mg (defect s)\<rparr> = scaled c s'"
    by (simp add: c scaled_def zeros_like_scale_object)
  finally show ?thesis .
qed

lemma level_mgstep_solution:
  assumes "level_mgstep mg level s = Inr s'"
  shows "solution s' level \<noteq> None"
  using assms
proof (cases rule: level_mgstep_cases)
  case (coarsest s1)
  then show ?thesis by (auto simp: coarse_solve_Inr)
next
  case (finer s1 s2 s3)
  from finer(6) obtain s4 where "post_smoothing mg level s4 = Inr s'"
    by (rule ascend_InrE)
  then show ?thesis by (auto simp: post_smoothing_Inr)
qed

subsection \<open>Null edge matrices against the no-op ones\<close>

lemmas edges_defs = without_edges_def with_zero_edges_def set_edge_matrices_def

lemma agree_mono: "agree X s1 s2 \<Longrightarrow> X \<subseteq> Y \<Longrightarrow> agree Y s1 s2"
  by (auto simp: agree_def)

lemma agree_enter: "agree X s1 s2 \<Longrightarrow> agree X (enter level s1) (enter level s2)"
  by (simp add: agree_def enter_def)

lemma sim_zero_solution:
  "agree X sA sB \<Longrightarrow> zero_solution level sB = Inr sB' \<Longrightarrow>
   \<exists>sA'. zero_solution level sA = Inr sA' \<and> agree X sA' sB'"
  by (auto simp: zero_solution_Inr agree_def)

lemma sim_coarse_solve:
  "agree X sA sB \<Longrightarrow> coarse_solve (with_zero_edges mg) level sB = Inr sB' \<Longrightarrow>
   \<exists>sA'. coarse_solve (without_edges mg) level sA = Inr sA' \<and> agree X sA' sB'"
  by (auto simp: coarse_solve_Inr agree_def edges_defs)

lemma sim_pre_smoothing:
  "agree X sA sB \<Longrightarrow> pre_smoothing (with_zero_edges mg) level sB = Inr sB' \<Longrightarrow>
   \<exists>sA'. pre_smoothing (without_edges mg) level sA = Inr sA' \<and> agree X sA' sB'"
  by (auto simp: pre_smoothing_Inr agree_def edges_defs)

lemma sim_post_smoothing:
  "agree X sA sB \<Longrightarrow> post_smoothing (with_zero_edges mg) level sB = Inr sB' \<Longrightarrow>
   \<exists>sA'. post_smoothing (without_edges mg) level sA = Inr sA' \<and> agree X sA' sB'"
  by (auto simp: post_smoothing_Inr agree_def edges_defs)

lemma sim_residual:
  "agree X sA sB \<Longrightarrow> level \<notin> X \<Longrightarrow> residual (with_zero_edges mg) level sB = Inr sB' \<Longrightarrow>
   \<exists>sA'. residual (without_edges mg) level sA = Inr sA' \<and> agree X sA' sB'"
  by (auto simp: residual_Inr agree_def edges_defs)

lemma sim_zero_t:
  "agree X sA sB \<Longrightarrow> k \<notin> X \<Longrightarrow> zero_t k sB = Inr sB' \<Longrightarrow>
   \<exists>sA'. zero_t k sA = Inr sA' \<and> agree X sA' sB'"
  by (auto simp: zero_t_Inr agree_def)

lemma sim_restriction:
  "agree X sA sB \<Longrightarrow> l \<notin> X \<Longrightarrow> l - 1 \<notin> X \<Longrightarrow>
   restriction (with_zero_edges mg) l sB = Inr sB' \<Longrightarrow>
   \<exists>sA'. restriction (without_edges mg) l sA = Inr sA' \<and> agree X sA' sB'"
  by (auto simp: restriction_Inr agree_def edges_defs)

lemma sim_subtract_from_defect:
  "agree X sA sB \<Longrightarrow> k \<notin> X \<Longrightarrow> subtract_from_defect k sB = Inr sB' \<Longrightarrow>
   \<exists>sA'. subtract_from_defect k sA = Inr sA' \<and> agree X sA' sB'"
  by (auto simp: subtract_from_defect_Inr agree_def)

lemma sim_prolongation:
  "agree X sA sB \<Longrightarrow> level \<notin> X \<Longrightarrow> prolongation (with_zero_edges mg) level sB = Inr sB' \<Longrightarrow>
   \<exists>sA'. prolongation (without_edges mg) level sA = Inr sA' \<and> agree X sA' sB'"
  by (auto simp: prolongation_Inr agree_def edges_defs)

lemma sim_add_correction:
  "agree X sA sB \<Longrightarrow> level \<notin> X \<Longrightarrow> add_correction level sB = Inr sB' \<Longrightarrow>
   \<exists>sA'. add_correction level sA = Inr sA' \<and> agree X sA' sB'"
  by (auto simp: add_correction_Inr agree_def)

lemma zero_vec_idem [simp]: "zero_vec (zero_vec v) = zero_vec v"
  by (simp add: zero_vec_def)

lemma length_zero_vec [simp]: "length (zero_vec v) = length v"
  by (simp add: zero_vec_def)

lemma map2_diff_zero_vec: "length d = length y \<Longrightarrow> map2 (-) d (zero_vec y) = d"
  by (induction d y rule: list_induct2) (simp_all add: zero_vec_def)

text \<open>On a scratch vector that was just zeroed, the no-op edge-down product changes nothing.\<close>

lemma sim_edge_down_contribution:
  assumes "agree X sA sB" and "t sB (l - 1) = Some (zero_vec y)"
    and "edge_down_contribution (with_zero_edges mg) level l sB = Inr sB'"
  shows "edge_down_contribution (without_edges mg) level l sA = Inr sA \<and> agree X sA sB'"
proof (cases "l = level")
  case False
  with assms show ?thesis by (simp add: edge_down_contribution_def)
next
  case True
  with assms(3) have "edge_down_vmult zero_matrix level sB = Inr sB'"
    by (simp add: edge_down_contribution_def edges_defs)
  with assms(2) True have "t sB' = t sB" "defect sB' = defect sB" "solution sB' = solution sB"
    by (auto simp: edge_down_vmult_Inr zero_matrix_def fun_eq_iff)
  with assms(1) show ?thesis
    by (simp add: edge_down_contribution_def edges_defs agree_def)
qed

lemma sim_cascade_body:
  assumes "agree {} sA sB" and "cascade_body (with_zero_edges mg) level l sB = Inr sB'"
  shows "\<exists>sA'. cascade_body (without_edges mg) level l sA = Inr sA' \<and> agree {} sA' sB'"
proof -
  from assms(2) obtain s1 s2 s3 where 1: "zero_t (l - 1) sB = Inr s1"
    and 2: "edge_down_contribution (with_zero_edges mg) level l s1 = Inr s2"
    and 3: "restriction (with_zero_edges mg) l s2 = Inr s3"
    and 4: "subtract_from_defect (l - 1) s3 = Inr sB'"
    by (rule cascade_body_InrE)
  from sim_zero_t[OF assms(1) _ 1] obtain a1 where a1: "zero_t (l - 1) sA = Inr a1" "agree {} a1 s1"
    by auto
  from 1 obtain y where "t s1 (l - 1) = Some (zero_vec y)"
    by (auto simp: zero_t_Inr)
  from sim_edge_down_contribution[OF a1(2) this 2]
  have a2: "edge_down_contribution (without_edges mg) level l a1 = Inr a1" "agree {} a1 s2"
    by simp_all
  from sim_restriction[OF a2(2) _ _ 3] obtain a3
    where a3: "restriction (without_edges mg) l a1 = Inr a3" "agree {} a3 s3"
    by auto
  from sim_subtract_from_defect[OF a3(2) _ 4] obtain a4
    where a4: "subtract_from_defect (l - 1) a3 = Inr a4" "agree {} a4 sB'"
    by auto
  from a1 a2 a3 a4 show ?thesis by (simp add: cascade_body_def seq_def)
qed

lemma sim_restrict_cascade:
  "agree {} sA sB \<Longrightarrow> restrict_cascade (with_zero_edges mg) level l sB = Inr sB' \<Longrightarrow>
   \<exists>sA'. restrict_cascade (without_edges mg) level l sA = Inr sA' \<and> agree {} sA' sB'"
proof (induction l arbitrary: sA sB)
  case 0
  then show ?case by (simp add: restrict_cascade.simps)
next
  case (Suc l)
  show ?case
  proof (cases "minlevel mg < Suc l")
    case False
    with Suc.prems show ?thesis by (simp add: restrict_cascade.simps edges_defs)
  next
    case True
    with Suc.prems(2) obtain s1 where b: "cascade_body (with_zero_edges mg) level (Suc l) sB = Inr s1"
      and r: "restrict_cascade (with_zero_edges mg) level l s1 = Inr sB'"
      by (subst (asm) restrict_cascade_Inr) (auto simp: edges_defs)
    from sim_cascade_body[OF Suc.prems(1) b] obtain a1
      where a1: "cascade_body (without_edges mg) level (Suc l) sA = Inr a1" "agree {} a1 s1"
      by auto
    from Suc.IH[OF a1(2) r] obtain sA'
      where "restrict_cascade (without_edges mg) level l a1 = Inr sA'" "agree {} sA' sB'"
      by auto
    with a1 True show ?thesis
      by (subst restrict_cascade.simps) (simp add: seq_def edges_defs)
  qed
qed

lemma sim_descend:
  assumes "agree {} sA sB" and "descend (with_zero_edges mg) level sB = Inr sB'"
  shows "\<exists>sA'. descend (without_edges mg) level sA = Inr sA' \<and> agree {} sA' sB'"
proof -
  from assms(2) obtain s1 s2 where 1: "pre_smoothing (with_zero_edges mg) level sB = Inr s1"
    and 2: "residual (with_zero_edges mg) level s1 = Inr s2"
    and 3: "restrict_cascade (with_zero_edges mg) level level s2 = Inr sB'"
    by (rule descend_InrE)
  from sim_pre_smoothing[OF assms(1) 1] obtain a1
    where a1: "pre_smoothing (without_edges mg) level sA = Inr a1" "agree {} a1 s1"
    by auto
  from sim_residual[OF a1(2) _ 2] obtain a2
    where a2: "residual (without_edges mg) level a1 = Inr a2" "agree {} a2 s2"
    by auto
  from sim_restrict_cascade[OF a2(2) 3] obtain sA'
    where "restrict_cascade (without_edges mg) level level a2 = Inr sA'" "agree {} sA' sB'"
    by auto
  with a1 a2 show ?thesis by (simp add: descend_def seq_def)
qed

text \<open>
  The no-op edge-up product zeroes \<open>t[level]\<close>, and subtracting that zero vector leaves
  \<open>defect[level]\<close> as it is.
\<close>

lemma sim_edge_up_correction:
  assumes "agree X sA sB" and "edge_up_correction (with_zero_edges mg) level sB = Inr sB'"
  shows "edge_up_correction (without_edges mg) level sA = Inr sA \<and> agree (insert level X) sA sB'"
proof -
  from assms(2) obtain s1 where 1: "edge_up_Tvmult zero_matrix level sB = Inr s1"
    and 2: "subtract_from_defect level s1 = Inr sB'"
    by (auto simp: edge_up_correction_def seq_Inr_iff edges_defs)
  from 1 obtain y where y: "t s1 level = Some (zero_vec y)"
    and s1: "defect s1 = defect sB" "solution s1 = solution sB" "\<forall>k. k \<noteq> level \<longrightarrow> t s1 k = t sB k"
    by (auto simp: edge_up_Tvmult_Inr zero_matrix_def)
  from 2 y obtain d where "defect s1 level = Some d" "length d = length (zero_vec y)"
    and "defect sB' = (defect s1)(level \<mapsto> map2 (-) d (zero_vec y))"
    and s2: "solution sB' = solution s1" "t sB' = t s1"
    by (auto simp: subtract_from_defect_Inr)
  then have "defect sB' = defect s1"
    by (auto simp: fun_eq_iff map2_diff_zero_vec)
  with s1 s2 assms(1) show ?thesis
    by (auto simp: edge_up_correction_def edges_defs agree_def)
qed

lemma sim_ascend:
  assumes "agree X sA sB" and "level \<notin> X" and "ascend (with_zero_edges mg) level sB = Inr sB'"
  shows "\<exists>sA'. ascend (without_edges mg) level sA = Inr sA' \<and> agree (insert level X) sA' sB'"
proof -
  from assms(3) obtain s1 s2 s3 s4 where 1: "zero_t level sB = Inr s1"
    and 2: "prolongation (with_zero_edges mg) level s1 = Inr s2"
    and 3: "add_correction level s2 = Inr s3"
    and 4: "edge_up_correction (with_zero_edges mg) level s3 = Inr s4"
    and 5: "post_smoothing (with_zero_edges mg) level s4 = Inr sB'"
    by (rule ascend_InrE)
  from sim_zero_t[OF assms(1,2) 1] obtain a1 where a1: "zero_t level sA = Inr a1" "agree X a1 s1"
    by auto
  from sim_prolongation[OF a1(2) assms(2) 2] obtain a2
    where a2: "prolongation (without_edges mg) level a1 = Inr a2" "agree X a2 s2"
    by auto
  from sim_add_correction[OF a2(2) assms(2) 3] obtain a3
    where a3: "add_correction level a2 = Inr a3" "agree X a3 s3"
    by auto
  from sim_edge_up_correction[OF a3(2) 4]
  have a4: "edge_up_correction (without_edges mg) level a3 = Inr a3" "agree (insert level X) a3 s4"
    by simp_all
  from sim_post_smoothing[OF a4(2) 5] obtain sA'
    where "post_smoothing (without_edges mg) level a3 = Inr sA'" "agree (insert level X) sA' sB'"
    by auto
  with a1 a2 a3 a4 show ?thesis by (simp add: ascend_def seq_def)
qed

lemma sim_level_mgstep:
  "agree {} sA sB \<Longrightarrow> level_mgstep (with_zero_edges mg) level sB = Inr sB' \<Longrightarrow>
   \<exists>sA'. level_mgstep (without_edges mg) level sA = Inr sA' \<and>
         agree {minlevel mg <.. level} sA' sB'"
proof (induction level arbitrary: sA sB sB')
  case 0
  from "0.prems"(2) show ?case
  proof (cases rule: level_mgstep_cases)
    case (coarsest s1)
    from sim_zero_solution[OF agree_enter[OF "0.prems"(1)] coarsest(2)] obtain a1
      where a1: "zero_solution 0 (enter 0 sA) = Inr a1" "agree {} a1 s1"
      by auto
    from sim_coarse_solve[OF a1(2) coarsest(3)] obtain sA'
      where "coarse_solve (without_edges mg) 0 a1 = Inr sA'" "agree {} sA' sB'"
      by auto
    with a1 coarsest(1) show ?thesis
      by (subst level_mgstep.simps) (auto simp: seq_def edges_defs)
  next
    case (finer s1 s2 s3)
    then show ?thesis by simp
  qed
next
  case (Suc level)
  from Suc.prems(2) show ?case
  proof (cases rule: level_mgstep_cases)
    case (coarsest s1)
    from sim_zero_solution[OF agree_enter[OF Suc.prems(1)] coarsest(2)] obtain a1
      where a1: "zero_solution (Suc level) (enter (Suc level) sA) = Inr a1" "agree {} a1 s1"
      by auto
    from sim_coarse_solve[OF a1(2) coarsest(3)] obtain sA'
      where "coarse_solve (without_edges mg) (Suc level) a1 = Inr sA'" "agree {} sA' sB'"
      by auto
    with a1 coarsest(1) show ?thesis
      by (subst level_mgstep.simps) (auto simp: seq_def edges_defs)
  next
    case (finer s1 s2 s3)
    from sim_zero_solution[OF agree_enter[OF Suc.prems(1)] finer(3)] obtain a1
      where a1: "zero_solution (Suc level) (enter (Suc level) sA) = Inr a1" "agree {} a1 s1"
      by auto
    from sim_descend[OF a1(2) finer(4)] obtain a2
      where a2: "descend (without_edges mg) (Suc level) a1 = Inr a2" "agree {} a2 s2"
      by auto
    from finer(5) have "level_mgstep (with_zero_edges mg) level s2 = Inr s3" by simp
    from Suc.IH[OF a2(2) this] obtain a3
      where a3: "level_mgstep (without_edges mg) level a2 = Inr a3"
        "agree {minlevel mg <.. level} a3 s3"
      by auto
    from sim_ascend[OF a3(2) _ finer(6)] obtain sA'
      where a4: "ascend (without_edges mg) (Suc level) a3 = Inr sA'"
        "agree (insert (Suc level) {minlevel mg <.. level}) sA' sB'"
      by auto
    from level_mgstep_above_minlevel[OF a3(1)] have "minlevel mg \<le> level"
      by (simp add: edges_defs)
    then have "insert (Suc level) {minlevel mg <.. level} = {minlevel mg <.. Suc level}"
      by auto
    with a4 have "agree {minlevel mg <.. Suc level} sA' sB'" by simp
    with a1 a2 a3 a4(1) finer(1) show ?thesis
      by (subst level_mgstep.simps) (auto simp: seq_def edges_defs)
  qed
qed

lemma resize_vectors_edges:
  "resize_vectors (with_zero_edges mg) s = Some (Inr s') \<Longrightarrow>
   resize_vectors (without_edges mg) s = Some (Inr s')"
  by (simp add: resize_vectors_closed edges_defs zeros_like_def)

subsection \<open>Facts about the example hierarchy\<close>

lemma ex_keeps_shapes: "keeps_shapes (\<lambda>l. 2) (ex_mg lo hi (Some ex_edge) (Some ex_edge))"
  by (simp add: keeps_shapes_def ex_defs)

lemma linear_op_of_source:
  assumes "\<And>a b. g (a + b) = g a + g b" and "\<And>c a. g (c * a) = c * g a"
  shows "linear_op (\<lambda>l dst src. map g src)"
proof -
  have "map g (map2 (+) y y') = map2 (+) (map g y) (map g y')" for y y' :: vec
    by (induction y y' rule: list_induct2') (simp_all add: assms(1))
  with assms(2) show ?thesis by (simp add: linear_op_def smult_def)
qed

lemma linear_op_pointwise:
  assumes "\<And>a a' b b'. f (a + a') (b + b') = f a b + f a' b'"
    and "\<And>c a b. f (c * a) (c * b) = c * f a b"
  shows "linear_op (\<lambda>l x d. map2 f x d)"
proof -
  have h: "map2 f (smult c x) (smult c y) = smult c (map2 f x y)" for c x y
    by (induction x y rule: list_induct2') (simp_all add: smult_def assms(2))
  have "length x = length x' \<Longrightarrow> length y = length y' \<Longrightarrow>
      map2 f (map2 (+) x x') (map2 (+) y y') = map2 (+) (map2 f x y) (map2 f x' y')"
    for x x' y y' :: vec
  proof (induction x x' arbitrary: y y' rule: list_induct2)
    case Nil
    then show ?case by simp
  next
    case (Cons a x a' x')
    then show ?case by (cases y; cases y') (simp_all add: assms(1))
  qed
  with h show ?thesis by (simp add: linear_op_def)
qed

lemma ex_linear: "linear_mg (ex_mg lo hi (Some ex_edge) (Some ex_edge))"
proof -
  have "linear_op (\<lambda>l dst src. map (\<lambda>a::real. a) src)"
    by (rule linear_op_of_source) simp_all
  moreover have "linear_op (\<lambda>l dst src. map (\<lambda>a::real. 2 * a) src)"
    by (rule linear_op_of_source) (simp_all add: algebra_simps)
  moreover have "linear_op (\<lambda>l dst src. map (\<lambda>a::real. a / 2) src)"
    by (rule linear_op_of_source) (simp_all add: add_divide_distrib)
  moreover have "linear_op (\<lambda>l x d. map2 (\<lambda>a b::real. a / 2 + b / 4) x d)"
    by (rule linear_op_pointwise) (simp_all add: add_divide_distrib distrib_left)
  moreover have "linear_op (\<lambda>l x d. map2 (\<lambda>a b::real. a + b) x d)"
    by (rule linear_op_pointwise) (simp_all add: distrib_left)
  ultimately show ?thesis by (simp add: linear_mg_def ex_defs)
qed

section \<open>The claims\<close>

text \<open>
  C1. On a single-level hierarchy (\<open>minlevel = maxlevel\<close>, below the level \<open>2^32 - 1\<close>
  at which the counter of line 128 wraps) whose defect vector exists, the cycle returns,
  \<open>solution[maxlevel]\<close> is what the coarse solver makes of the zero vector of the defect's
  shape and \<open>defect[maxlevel]\<close>, and the only operator called is the coarse solver: no
  smoother, matrix, transfer or edge operator.
\<close>

theorem single_level_cycle:
  assumes "minlevel mg = maxlevel mg" and "maxlevel mg < 2 ^ 32 - 1"
    and "defect s (maxlevel mg) = Some d"
  shows "\<exists>s'. vcycle mg s = Some (Inr s') \<and>
           solution s' (maxlevel mg) =
             Some (coarse mg (maxlevel mg) (replicate (length d) 0) d) \<and>
           trace s' = trace s @ [Enter (maxlevel mg), CoarseSolve (maxlevel mg)]"
proof -
  define s1 where "s1 = s\<lparr>solution := zeros_like mg (defect s), t := zeros_like mg (defect s)\<rparr>"
  from assms have r: "resize_vectors mg s = Some (Inr s1)"
    by (auto simp: resize_vectors_closed s1_def)
  from assms have "solution s1 (maxlevel mg) = Some (replicate (length d) 0)"
    and "defect s1 (maxlevel mg) = Some d" and "trace s1 = trace s"
    by (simp_all add: s1_def zeros_like_def zero_vec_def)
  with assms(1) have "\<exists>s'. level_mgstep mg (maxlevel mg) s1 = Inr s' \<and>
           solution s' (maxlevel mg) =
             Some (coarse mg (maxlevel mg) (replicate (length d) 0) d) \<and>
           trace s' = trace s @ [Enter (maxlevel mg), CoarseSolve (maxlevel mg)]"
    by (subst level_mgstep.simps)
       (simp add: seq_def zero_solution_def enter_def coarse_solve_def zero_vec_def)
  with r show ?thesis by (simp add: vcycle_def run_then_def seq_def)
qed

theorem single_level_cycle_witness:
  "minlevel (ex_mg 2 2 (Some ex_edge) (Some ex_edge)) = maxlevel (ex_mg 2 2 (Some ex_edge) (Some ex_edge)) \<and>
   maxlevel (ex_mg 2 2 (Some ex_edge) (Some ex_edge)) < 2 ^ 32 - 1 \<and>
   defect ex_state 2 = Some [8, 16] \<and>
   (\<exists>s'. vcycle (ex_mg 2 2 (Some ex_edge) (Some ex_edge)) ex_state = Some (Inr s') \<and>
      solution s' 2 = Some [4, 8] \<and> trace s' = [Enter 2, CoarseSolve 2])"
proof -
  have 1: "minlevel (ex_mg 2 2 (Some ex_edge) (Some ex_edge)) = maxlevel (ex_mg 2 2 (Some ex_edge) (Some ex_edge))"
    by (simp add: ex_defs)
  have 2: "maxlevel (ex_mg 2 2 (Some ex_edge) (Some ex_edge)) < 2 ^ 32 - 1"
    by (simp add: ex_defs)
  have 3: "defect ex_state (maxlevel (ex_mg 2 2 (Some ex_edge) (Some ex_edge))) = Some [8, 16]"
    by (simp add: ex_defs)
  from single_level_cycle[OF 1 2 3] 1 2 3 show ?thesis
    by (simp add: ex_defs)
qed

text \<open>
  C2. In the restriction cascade of a frame at \<open>level\<close>, for every \<open>l\<close> from \<open>level\<close> down
  to \<open>minlevel + 1\<close>: \<open>scratch[l-1]\<close> is first zeroed; only for \<open>l = level\<close> and a configured
  \<open>edge_down\<close> the edge-down product of \<open>solution[level]\<close> is written into it (this is
  \<open>edge_down_base\<close>); then \<open>restrict_and_add\<close> accumulates the restriction of \<open>scratch[l]\<close>
  on top; and the accumulated vector is what the cascade leaves in \<open>scratch[l-1]\<close> and
  subtracts from \<open>defect[l-1]\<close>. The vector \<open>scratch[level]\<close> itself is not written.
\<close>

theorem cascade_subtracts_restriction:
  assumes "restrict_cascade mg level level s = Inr s'" and "minlevel mg < l" and "l \<le> level"
  shows "t s' level = t s level \<and>
         (\<exists>y d z b. t s (l - 1) = Some y \<and> defect s (l - 1) = Some d \<and> t s' l = Some z \<and>
            edge_down_base mg level l s y = Some b \<and>
            t s' (l - 1) = Some (restrict_and_add (transfer mg) l b z) \<and>
            length d = length (restrict_and_add (transfer mg) l b z) \<and>
            defect s' (l - 1) = Some (map2 (-) d (restrict_and_add (transfer mg) l b z)))"
proof
  from writes_restrict_cascade[OF assms(1)] show "t s' level = t s level"
    by (simp add: writes_within_def)
  from assms show "\<exists>y d z b. t s (l - 1) = Some y \<and> defect s (l - 1) = Some d \<and> t s' l = Some z \<and>
            edge_down_base mg level l s y = Some b \<and>
            t s' (l - 1) = Some (restrict_and_add (transfer mg) l b z) \<and>
            length d = length (restrict_and_add (transfer mg) l b z) \<and>
            defect s' (l - 1) = Some (map2 (-) d (restrict_and_add (transfer mg) l b z))"
    by (rule restrict_cascade_effect)
qed

theorem cascade_subtracts_restriction_witness:
  "\<exists>s'. restrict_cascade (ex_mg 0 2 (Some ex_edge) None) 2 2 ex_smoothed = Inr s' \<and>
      t s' 2 = Some [4, 8] \<and>
      t s' 1 = Some [6, 12] \<and> defect s' 1 = Some [2, 4] \<and>
      t s' 0 = Some [6, 12] \<and> defect s' 0 = Some [2, 4]"
proof -
  have "\<exists>s'. restrict_cascade (ex_mg 0 2 (Some ex_edge) None) 2 2 ex_smoothed = Inr s'"
    by (simp add: run_defs ex_defs)
  then obtain s' where r: "restrict_cascade (ex_mg 0 2 (Some ex_edge) None) 2 2 ex_smoothed = Inr s'"
    by blast
  have m: "minlevel (ex_mg 0 2 (Some ex_edge) None) < 2" "minlevel (ex_mg 0 2 (Some ex_edge) None) < 1"
    by (simp_all add: ex_defs)
  from cascade_subtracts_restriction[OF r m(1)]
  have 2: "t s' 2 = Some [4, 8]" "t s' 1 = Some [6, 12]" "defect s' 1 = Some [2, 4]"
    by (auto simp: ex_defs edge_down_base_def zero_vec_def)
  from cascade_subtracts_restriction[OF r m(2)] 2
  have "t s' 0 = Some [6, 12]" "defect s' 0 = Some [2, 4]"
    by (auto simp: ex_defs edge_down_base_def zero_vec_def)
  with r 2 show ?thesis by blast
qed

text \<open>
  C3, as amended. During one V-cycle the transposed product of the edge-up matrix is
  called once in every frame above \<open>minlevel\<close>, with that frame's level: at the levels
  \<open>minlevel + 1, ..., maxlevel\<close>, in this order, on the way up, and never when \<open>edge_up\<close> is
  null. It is called at the intermediate levels too, and at most once in a cycle only
  when \<open>maxlevel \<le> minlevel + 1\<close>.
\<close>

theorem edge_up_called_in_every_frame:
  assumes "vcycle mg s = Some (Inr s')"
  shows "calls_of EdgeUpTvmult (trace s') =
           calls_of EdgeUpTvmult (trace s) @
           (if edge_up mg = None then [] else [Suc (minlevel mg) ..< Suc (maxlevel mg)])"
proof -
  from assms obtain s1 where r: "resize_vectors mg s = Some (Inr s1)"
    and m: "level_mgstep mg (maxlevel mg) s1 = Inr s'"
    by (rule vcycle_InrE)
  from r have "trace s1 = trace s" by (rule trace_resize_vectors)
  with trace_level_mgstep[OF m] have "trace s' = trace s @ mgstep_events mg (maxlevel mg)"
    by simp
  with edge_ups_mgstep_events[OF level_mgstep_above_minlevel[OF m]] show ?thesis
    by simp
qed

theorem edge_up_called_in_every_frame_witness:
  "\<exists>s'. vcycle (ex_mg 0 2 None (Some ex_edge)) ex_state = Some (Inr s') \<and>
      calls_of EdgeUpTvmult (trace s') = [1, 2]"
proof -
  have "\<exists>s'. vcycle (ex_mg 0 2 None (Some ex_edge)) ex_state = Some (Inr s')"
    by (simp add: run_defs ex_defs)
  then obtain s' where r: "vcycle (ex_mg 0 2 None (Some ex_edge)) ex_state = Some (Inr s')"
    by blast
  from edge_up_called_in_every_frame[OF r] have "calls_of EdgeUpTvmult (trace s') = [1, 2]"
    by (simp add: ex_defs eval_nat_numeral)
  with r show ?thesis by blast
qed

text \<open>
  The claim as first stated (at most one call in a cycle, at \<open>maxlevel\<close> only) fails on
  the three-level hierarchy: the frame at the intermediate level 1 calls it as well.
\<close>

theorem edge_up_once_counterexample:
  "calls_of EdgeUpTvmult (events_of (vcycle (ex_mg 0 2 None (Some ex_edge)) ex_state)) = [1, 2]"
  by (simp add: run_defs ex_defs)

text \<open>
  C4, as amended. The recursive call made from a frame at level \<open>L\<close> (above \<open>minlevel\<close>)
  to level \<open>L - 1\<close> writes no scratch vector of a level from \<open>L\<close> upwards: it writes
  scratch vectors of the levels up to \<open>L - 1\<close> only. When it returns, \<open>scratch[L]\<close> still
  holds the product of the level matrix with \<open>solution[L]\<close> that line 62 stored before
  the recursion. The frame then zeroes \<open>scratch[L]\<close> all the same (line 87), and the
  prolongation and the rest of the frame (lines 91 to 107) run on the zeroed vector.
\<close>

theorem recursion_keeps_scratch:
  assumes "minlevel mg < level" and "level_mgstep mg level s = Inr s'"
  shows "\<exists>s2 s3 s4 y x.
           before_recursion mg level s = Inr s2 \<and>
           t s level = Some y \<and> solution s2 level = Some x \<and>
           t s2 level = Some (vmult (matrix mg) level y x) \<and>
           level_mgstep mg (level - 1) s2 = Inr s3 \<and>
           (\<forall>k. level \<le> k \<longrightarrow> t s3 k = t s2 k) \<and>
           zero_t level s3 = Inr s4 \<and>
           t s4 level = Some (zero_vec (vmult (matrix mg) level y x)) \<and>
           correct_and_smooth mg level s4 = Inr s'"
proof -
  from assms(2) assms(1) obtain s1 s2 s3 where z: "zero_solution level (enter level s) = Inr s1"
    and d: "descend mg level s1 = Inr s2"
    and r: "level_mgstep mg (level - 1) s2 = Inr s3"
    and a: "ascend mg level s3 = Inr s'"
    by (cases rule: level_mgstep_cases) auto
  from z d have b: "before_recursion mg level s = Inr s2"
    by (simp add: before_recursion_def seq_def)
  from z have "t s1 = t s" by (auto simp: zero_solution_Inr enter_def)
  with descend_scratch[OF d] obtain y x where v: "t s level = Some y" "solution s2 level = Some x"
    "t s2 level = Some (vmult (matrix mg) level y x)"
    by auto
  from writes_level_mgstep[OF r] assms(1) have k: "\<forall>k. level \<le> k \<longrightarrow> t s3 k = t s2 k"
    by (simp add: writes_within_def)
  from a obtain s4 where z4: "zero_t level s3 = Inr s4"
    and c: "correct_and_smooth mg level s4 = Inr s'"
    unfolding ascend_correct_and_smooth seq_Inr_iff by blast
  from z4 k v(3) have "t s4 level = Some (zero_vec (vmult (matrix mg) level y x))"
    by (auto simp: zero_t_Inr)
  with b v r k z4 c show ?thesis by blast
qed

theorem recursion_keeps_scratch_witness:
  "minlevel (ex_mg 0 2 None None) < 2 \<and>
   (\<exists>s2 s3 s4 s'. level_mgstep (ex_mg 0 2 None None) 2 ex_resized = Inr s' \<and>
      before_recursion (ex_mg 0 2 None None) 2 ex_resized = Inr s2 \<and>
      level_mgstep (ex_mg 0 2 None None) 1 s2 = Inr s3 \<and>
      zero_t 2 s3 = Inr s4 \<and>
      correct_and_smooth (ex_mg 0 2 None None) 2 s4 = Inr s' \<and>
      t s2 2 = Some [4, 8] \<and> t s3 2 = Some [4, 8] \<and> t s4 2 = Some [0, 0] \<and>
      t s2 1 = Some [4, 8] \<and> t s3 1 = Some [1, 2])"
proof -
  have m: "minlevel (ex_mg 0 2 None None) < 2"
    by (simp add: ex_defs)
  have "\<exists>s'. level_mgstep (ex_mg 0 2 None None) 2 ex_resized = Inr s'"
    by (simp add: run_defs ex_defs)
  then obtain s' where f: "level_mgstep (ex_mg 0 2 None None) 2 ex_resized = Inr s'"
    by blast
  from recursion_keeps_scratch[OF m f] obtain s2 s3 s4 y x
    where b: "before_recursion (ex_mg 0 2 None None) 2 ex_resized = Inr s2"
      and v: "t s2 2 = Some (vmult (matrix (ex_mg 0 2 None None)) 2 y x)"
      and r: "level_mgstep (ex_mg 0 2 None None) (2 - 1) s2 = Inr s3"
      and k: "\<forall>k. 2 \<le> k \<longrightarrow> t s3 k = t s2 k"
      and z: "zero_t 2 s3 = Inr s4"
      and z4: "t s4 2 = Some (zero_vec (vmult (matrix (ex_mg 0 2 None None)) 2 y x))"
      and c: "correct_and_smooth (ex_mg 0 2 None None) 2 s4 = Inr s'"
    by blast
  from r have r1: "level_mgstep (ex_mg 0 2 None None) 1 s2 = Inr s3"
    by simp
  with b have a: "after_recursion (ex_mg 0 2 None None) 2 ex_resized = Inr s3"
    by (simp add: after_recursion_def seq_def)
  have "scratch_at (Some (before_recursion (ex_mg 0 2 None None) 2 ex_resized)) 2 = Some [4, 8]"
    and "scratch_at (Some (before_recursion (ex_mg 0 2 None None) 2 ex_resized)) 1 = Some [4, 8]"
    by (simp_all add: run_defs ex_defs)
  with b have t2: "t s2 2 = Some [4, 8]" "t s2 1 = Some [4, 8]"
    by (simp_all add: scratch_at_def)
  have "scratch_at (Some (after_recursion (ex_mg 0 2 None None) 2 ex_resized)) 1 = Some [1, 2]"
    by (simp add: run_defs ex_defs)
  with a have t3: "t s3 1 = Some [1, 2]"
    by (simp add: scratch_at_def)
  from k t2 have t32: "t s3 2 = Some [4, 8]"
    by simp
  from v t2 have "vmult (matrix (ex_mg 0 2 None None)) 2 y x = [4, 8]"
    by simp
  with z4 have t4: "t s4 2 = Some [0, 0]"
    by (simp add: zero_vec_def)
  from m f b r1 z c t2 t3 t32 t4 show ?thesis by blast
qed

text \<open>
  The claim as first stated (the recursive call leaves a different value in \<open>scratch[L]\<close>)
  fails on the three-level hierarchy, in the frame at level 2: its recursive call runs
  the frame at level 1, which rewrites \<open>scratch[1]\<close> from \<open>[4, 8]\<close> to \<open>[1, 2]\<close>, while
  \<open>scratch[2]\<close> is \<open>2 * [2, 4]\<close> before the call and after it.
\<close>

theorem recursion_rewrites_scratch_counterexample:
  "scratch_at (run_then (resize_vectors (ex_mg 0 2 None None) ex_state)
                        (before_recursion (ex_mg 0 2 None None) 2)) 2 = Some [4, 8] \<and>
   scratch_at (run_then (resize_vectors (ex_mg 0 2 None None) ex_state)
                        (after_recursion (ex_mg 0 2 None None) 2)) 2 = Some [4, 8] \<and>
   scratch_at (run_then (resize_vectors (ex_mg 0 2 None None) ex_state)
                        (before_recursion (ex_mg 0 2 None None) 2)) 1 = Some [4, 8] \<and>
   scratch_at (run_then (resize_vectors (ex_mg 0 2 None None) ex_state)
                        (after_recursion (ex_mg 0 2 None None) 2)) 1 = Some [1, 2]"
  by (simp add: run_defs ex_defs)

text \<open>
  C5, as amended. Whenever the cycle with both edge matrices replaced by the no-op
  (zero-returning) matrix returns, the cycle with both edge matrices null returns too,
  with the same defect and solution vectors at every level and the same scratch vectors
  at every level outside \<open>minlevel + 1 .. maxlevel\<close>. The scratch vectors of the levels
  \<open>minlevel + 1 .. maxlevel\<close> are left out: the no-op \<open>Tvmult\<close> overwrites them with zero,
  while with a null \<open>edge_up\<close> they keep the prolongated coarse correction.
\<close>

theorem null_edges_as_zero_edges:
  assumes "vcycle (with_zero_edges mg) s = Some (Inr sB)"
  shows "\<exists>sA. vcycle (without_edges mg) s = Some (Inr sA) \<and>
           defect sA = defect sB \<and> solution sA = solution sB \<and>
           (\<forall>l. l \<le> minlevel mg \<or> maxlevel mg < l \<longrightarrow> t sA l = t sB l)"
proof -
  from assms obtain s1 where r: "resize_vectors (with_zero_edges mg) s = Some (Inr s1)"
    and "level_mgstep (with_zero_edges mg) (maxlevel (with_zero_edges mg)) s1 = Inr sB"
    by (rule vcycle_InrE)
  then have m: "level_mgstep (with_zero_edges mg) (maxlevel mg) s1 = Inr sB"
    by (simp add: edges_defs)
  have "agree {} s1 s1" by (simp add: agree_def)
  from sim_level_mgstep[OF this m] obtain sA
    where a: "level_mgstep (without_edges mg) (maxlevel mg) s1 = Inr sA"
      and g: "agree {minlevel mg <.. maxlevel mg} sA sB"
    by auto
  from resize_vectors_edges[OF r] a have "vcycle (without_edges mg) s = Some (Inr sA)"
    by (simp add: vcycle_def run_then_def seq_def edges_defs)
  with g show ?thesis by (auto simp: agree_def)
qed

theorem null_edges_as_zero_edges_witness:
  "\<exists>sA sB. vcycle (with_zero_edges (ex_mg 0 2 None None)) ex_state = Some (Inr sB) \<and>
      vcycle (without_edges (ex_mg 0 2 None None)) ex_state = Some (Inr sA) \<and>
      solution sA 2 = Some [4, 8] \<and> solution sB 2 = Some [4, 8] \<and>
      t sA 0 = t sB 0"
proof -
  have "\<exists>sB. vcycle (with_zero_edges (ex_mg 0 2 None None)) ex_state = Some (Inr sB) \<and>
      solution sB 2 = Some [4, 8]"
    by (simp add: run_defs ex_defs edges_defs zero_matrix_def)
  then obtain sB where r: "vcycle (with_zero_edges (ex_mg 0 2 None None)) ex_state = Some (Inr sB)"
    and x: "solution sB 2 = Some [4, 8]"
    by blast
  from null_edges_as_zero_edges[OF r] obtain sA
    where "vcycle (without_edges (ex_mg 0 2 None None)) ex_state = Some (Inr sA)"
      and "solution sA = solution sB" and "t sA 0 = t sB 0"
    by (auto simp: ex_mg_def)
  with r x show ?thesis by auto
qed

text \<open>
  The claim as first stated (the same scratch vectors at every level) fails on the
  two-level hierarchy: at level 1 the cycle with null edge matrices leaves the prolongated
  coarse solution in \<open>scratch[1]\<close>, the cycle with the no-op matrices leaves zero.
\<close>

theorem null_edges_scratch_counterexample:
  "scratch_at (vcycle (without_edges (ex_mg 0 1 None None)) ex_state) 1 = Some [2, 4] \<and>
   scratch_at (vcycle (with_zero_edges (ex_mg 0 1 None None)) ex_state) 1 = Some [0, 0]"
  by (simp add: run_defs ex_defs edges_defs zero_matrix_def)

text \<open>
  C6. In the restriction cascade of a frame at \<open>level\<close>, the product with the edge-down
  matrix is called at most once, before the first restriction (the one at \<open>l = level\<close>,
  which accumulates into \<open>scratch[level - 1]\<close>), and only if the matrix is configured and
  \<open>level\<close> is above \<open>minlevel\<close>. The rest of the cascade, from any \<open>l\<close> below \<open>level\<close> on,
  does not depend on the edge-down matrix, whatever it is set to.
\<close>

theorem edge_down_only_at_top:
  assumes "restrict_cascade mg level level s = Inr s'"
  shows "trace s' = trace s @
           (if minlevel mg < level \<and> edge_down mg \<noteq> None then [EdgeDownVmult level] else []) @
           map RestrictAndAdd (rev [Suc (minlevel mg) ..< Suc level]) \<and>
         (\<forall>l e s. l < level \<longrightarrow>
            restrict_cascade (mg\<lparr>edge_down := e\<rparr>) level l s = restrict_cascade mg level l s)"
  using trace_restrict_cascade[OF assms] by (simp add: restrict_cascade_below_top)

theorem edge_down_only_at_top_witness:
  "\<exists>s'. restrict_cascade (ex_mg 0 2 (Some ex_edge) None) 2 2 ex_resized = Inr s' \<and>
      trace s' = [EdgeDownVmult 2, RestrictAndAdd 2, RestrictAndAdd 1] \<and>
      restrict_cascade (ex_mg 0 2 None None) 2 1 ex_resized =
        restrict_cascade (ex_mg 0 2 (Some ex_edge) None) 2 1 ex_resized"
proof -
  have "\<exists>s'. restrict_cascade (ex_mg 0 2 (Some ex_edge) None) 2 2 ex_resized = Inr s'"
    by (simp add: run_defs ex_defs)
  then obtain s' where r: "restrict_cascade (ex_mg 0 2 (Some ex_edge) None) 2 2 ex_resized = Inr s'"
    by blast
  have e: "ex_mg 0 2 None None = (ex_mg 0 2 (Some ex_edge) None)\<lparr>edge_down := None\<rparr>"
    by (simp add: ex_defs)
  note th = edge_down_only_at_top[OF r]
  from th[THEN conjunct1]
  have "trace s' = [EdgeDownVmult 2, RestrictAndAdd 2, RestrictAndAdd 1]"
    by (simp add: ex_defs eval_nat_numeral)
  moreover from th[THEN conjunct2, rule_format, of 1 None ex_resized]
  have "restrict_cascade ((ex_mg 0 2 (Some ex_edge) None)\<lparr>edge_down := None\<rparr>) 2 1 ex_resized =
        restrict_cascade (ex_mg 0 2 (Some ex_edge) None) 2 1 ex_resized"
    by simp
  ultimately show ?thesis using r e by simp
qed

text \<open>
  C7. When every configured operator is a linear map, a cycle on the defect vectors
  scaled by \<open>c\<close> (all of them) returns whenever the cycle on the defect vectors
  themselves does, and its \<open>solution[maxlevel]\<close> is \<open>c\<close> times that of the unscaled cycle.
\<close>

theorem vcycle_scales:
  assumes "linear_mg mg" and "vcycle mg s = Some (Inr s')"
  shows "\<exists>s'' x. vcycle mg (s\<lparr>defect := scale_object c (defect s)\<rparr>) = Some (Inr s'') \<and>
           solution s' (maxlevel mg) = Some x \<and>
           solution s'' (maxlevel mg) = Some (smult c x)"
proof -
  from assms(2) obtain s1 where r: "resize_vectors mg s = Some (Inr s1)"
    and m: "level_mgstep mg (maxlevel mg) s1 = Inr s'"
    by (rule vcycle_InrE)
  from scaled_resize_vectors[OF r, of c] scaled_level_mgstep[OF assms(1) m, of c]
  have "vcycle mg (s\<lparr>defect := scale_object c (defect s)\<rparr>) = Some (Inr (scaled c s'))"
    by (simp add: vcycle_def run_then_def seq_def)
  moreover from level_mgstep_solution[OF m] obtain x where "solution s' (maxlevel mg) = Some x"
    by auto
  ultimately show ?thesis by simp
qed


theorem vcycle_scales_witness:
  "linear_mg (ex_mg 0 2 (Some ex_edge) (Some ex_edge)) \<and>
   (\<exists>s' s''. vcycle (ex_mg 0 2 (Some ex_edge) (Some ex_edge)) ex_state = Some (Inr s') \<and>
      vcycle (ex_mg 0 2 (Some ex_edge) (Some ex_edge))
        (ex_state\<lparr>defect := scale_object 3 (defect ex_state)\<rparr>) = Some (Inr s'') \<and>
      solution s' 2 = Some [205 / 64, 205 / 32] \<and>
      solution s'' 2 = Some [615 / 64, 615 / 32])"
proof -
  have "\<exists>s'. vcycle (ex_mg 0 2 (Some ex_edge) (Some ex_edge)) ex_state = Some (Inr s') \<and>
      solution s' 2 = Some [205 / 64, 205 / 32]"
    by (simp add: run_defs ex_defs)
  then obtain s' where r: "vcycle (ex_mg 0 2 (Some ex_edge) (Some ex_edge)) ex_state = Some (Inr s')"
    and x: "solution s' 2 = Some [205 / 64, 205 / 32]"
    by blast
  from vcycle_scales[OF ex_linear r, of 3] x obtain s''
    where "vcycle (ex_mg 0 2 (Some ex_edge) (Some ex_edge))
        (ex_state\<lparr>defect := scale_object 3 (defect ex_state)\<rparr>) = Some (Inr s'')"
      and "solution s'' 2 = Some [615 / 64, 615 / 32]"
    by (auto simp: ex_mg_def smult_def)
  with r x ex_linear show ?thesis by blast
qed

text \<open>
  C8, as amended. The recursion of \<open>level_mgstep\<close> and the loop of the restriction cascade
  are total functions: their termination proofs stand with the definitions. For a range
  \<open>minlevel \<le> maxlevel < 2^32 - 1\<close>, defect vectors of the shapes \<open>n\<close> on every level of
  the range and operators that keep these shapes, one cycle returns a state. Its events
  are those of \<open>mgstep_events\<close>, where the events of the frame at a level enclose those of
  the frame one level below: the frames are those of the levels
  \<open>maxlevel, maxlevel - 1, ..., minlevel\<close>, each entered once and in this order, so that
  the depth is \<open>maxlevel - minlevel + 1\<close>, and the coarse solver runs once, at \<open>minlevel\<close>.
  No hypothesis concerns the values in the vectors.
\<close>

theorem vcycle_returns:
  assumes "minlevel mg \<le> maxlevel mg" and "maxlevel mg < 2 ^ 32 - 1"
    and "\<forall>l. minlevel mg \<le> l \<and> l \<le> maxlevel mg \<longrightarrow> (\<exists>d. defect s l = Some d \<and> length d = n l)"
    and "keeps_shapes n mg"
  shows "\<exists>s'. vcycle mg s = Some (Inr s') \<and>
           trace s' = trace s @ mgstep_events mg (maxlevel mg) \<and>
           calls_of Enter (trace s') =
             calls_of Enter (trace s) @ rev [minlevel mg ..< Suc (maxlevel mg)] \<and>
           length (calls_of Enter (trace s')) =
             length (calls_of Enter (trace s)) + (maxlevel mg - minlevel mg + 1) \<and>
           calls_of CoarseSolve (trace s') = calls_of CoarseSolve (trace s) @ [minlevel mg]"
proof -
  from assms(1,2,3) obtain s1 where r: "resize_vectors mg s = Some (Inr s1)"
    by (auto simp: resize_vectors_closed)
  from r assms(3) have "shaped n mg s1" by (rule shaped_resize_vectors)
  with assms(1,4) obtain s' where m: "level_mgstep mg (maxlevel mg) s1 = Inr s'"
    using ok_level_mgstep[of n mg s1 "maxlevel mg"] by auto
  from r have "trace s1 = trace s" by (rule trace_resize_vectors)
  with trace_level_mgstep[OF m] have tr: "trace s' = trace s @ mgstep_events mg (maxlevel mg)"
    by simp
  from r m have "vcycle mg s = Some (Inr s')" by (simp add: vcycle_def run_then_def seq_def)
  moreover note tr
  moreover from tr assms(1) have "calls_of Enter (trace s') =
      calls_of Enter (trace s) @ rev [minlevel mg ..< Suc (maxlevel mg)]"
    by (simp add: enters_mgstep_events)
  moreover from this assms(1) have "length (calls_of Enter (trace s')) =
      length (calls_of Enter (trace s)) + (maxlevel mg - minlevel mg + 1)"
    by simp
  moreover from tr assms(1) have "calls_of CoarseSolve (trace s') =
      calls_of CoarseSolve (trace s) @ [minlevel mg]"
    by (simp add: coarse_solves_mgstep_events)
  ultimately show ?thesis by blast
qed

theorem vcycle_returns_witness:
  "\<exists>s'. vcycle (ex_mg 0 2 (Some ex_edge) (Some ex_edge)) ex_state = Some (Inr s') \<and>
      calls_of Enter (trace s') = [2, 1, 0] \<and> calls_of CoarseSolve (trace s') = [0]"
proof -
  have 1: "minlevel (ex_mg 0 2 (Some ex_edge) (Some ex_edge)) \<le>
      maxlevel (ex_mg 0 2 (Some ex_edge) (Some ex_edge))"
    by (simp add: ex_defs)
  have b: "maxlevel (ex_mg 0 2 (Some ex_edge) (Some ex_edge)) < 2 ^ 32 - 1"
    by (simp add: ex_defs)
  have 2: "\<forall>l. minlevel (ex_mg 0 2 (Some ex_edge) (Some ex_edge)) \<le> l \<and>
      l \<le> maxlevel (ex_mg 0 2 (Some ex_edge) (Some ex_edge)) \<longrightarrow>
      (\<exists>d. defect ex_state l = Some d \<and> length d = 2)"
    by (simp add: ex_defs)
  from vcycle_returns[OF 1 b 2 ex_keeps_shapes] obtain s'
    where r: "vcycle (ex_mg 0 2 (Some ex_edge) (Some ex_edge)) ex_state = Some (Inr s')"
      and e: "calls_of Enter (trace s') = calls_of Enter (trace ex_state) @
          rev [minlevel (ex_mg 0 2 (Some ex_edge) (Some ex_edge)) ..<
               Suc (maxlevel (ex_mg 0 2 (Some ex_edge) (Some ex_edge)))]"
      and c: "calls_of CoarseSolve (trace s') = calls_of CoarseSolve (trace ex_state) @
          [minlevel (ex_mg 0 2 (Some ex_edge) (Some ex_edge))]"
    by blast
  from e have "calls_of Enter (trace s') = [2, 1, 0]"
    by (simp add: ex_defs eval_nat_numeral)
  moreover from c have "calls_of CoarseSolve (trace s') = [0]"
    by (simp add: ex_defs)
  ultimately show ?thesis using r by blast
qed

text \<open>
  The claim as first stated (a cycle returns a result for every configuration with
  \<open>minlevel \<le> maxlevel\<close>) fails: the cycle ends in a fatal failure, and returns no
  result, on the two-level hierarchy when the defect vector of level 0 is missing, and
  when the defect vectors have one and two entries, which the copying prolongation does
  not respect (line 98 then adds a vector of one entry to one of two). On the single
  level \<open>2^32 - 1\<close> the counter of line 128 wraps to 0 and the loop indexes level 0,
  outside the range.
\<close>

theorem vcycle_fails_counterexample:
  "vcycle (ex_mg 0 1 None None) (ex_state\<lparr>defect := [1 \<mapsto> [8, 16]]\<rparr>) =
     Some (Inl LevelOutOfRange) \<and>
   vcycle (ex_mg 0 1 None None) (ex_state\<lparr>defect := [0 \<mapsto> [8], 1 \<mapsto> [8, 16]]\<rparr>) =
     Some (Inl ShapeMismatch) \<and>
   vcycle (ex_mg 4294967295 4294967295 None None)
          (ex_state\<lparr>defect := [4294967295 \<mapsto> [8, 16]]\<rparr>) =
     Some (Inl LevelOutOfRange)"
  by (simp add: run_defs ex_defs)

text \<open>
  C9. When the level range is well formed, below the level \<open>2^32 - 1\<close> at which the
  counter of line 128 wraps, and every level has its defect vector, the resize step
  returns; run again on its own result, also after the defect vectors got other contents
  of the same shapes, it raises no error and changes nothing: \<open>solution[l]\<close> and
  \<open>scratch[l]\<close> are the zero vectors of the shape of \<open>defect[l]\<close>, as after the first
  resize.
\<close>

theorem resize_idempotent:
  assumes "minlevel mg \<le> maxlevel mg" and "maxlevel mg < 2 ^ 32 - 1"
    and "\<forall>l. minlevel mg \<le> l \<and> l \<le> maxlevel mg \<longrightarrow> defect s l \<noteq> None"
    and "\<forall>l. map_option length (D l) = map_option length (defect s l)"
  shows "\<exists>s1. resize_vectors mg s = Some (Inr s1) \<and>
           resize_vectors mg (s1\<lparr>defect := D\<rparr>) = Some (Inr (s1\<lparr>defect := D\<rparr>)) \<and>
           (\<forall>l. minlevel mg \<le> l \<and> l \<le> maxlevel mg \<longrightarrow>
              (\<exists>d. defect s l = Some d \<and>
                   solution s1 l = Some (replicate (length d) 0) \<and>
                   t s1 l = Some (replicate (length d) 0)))"
proof -
  define s1 where "s1 = s\<lparr>solution := zeros_like mg (defect s), t := zeros_like mg (defect s)\<rparr>"
  from assms(1,2,3) have r: "resize_vectors mg s = Some (Inr s1)"
    by (simp add: resize_vectors_closed s1_def)
  have "zeros_like mg D l = zeros_like mg (defect s) l" for l
  proof (cases "D l")
    case None
    with assms(4)[rule_format, of l] show ?thesis by (simp add: zeros_like_def)
  next
    case (Some d')
    with assms(4)[rule_format, of l] obtain d where "defect s l = Some d" "length d' = length d"
      by (cases "defect s l") auto
    with Some show ?thesis by (simp add: zeros_like_def zero_vec_def)
  qed
  then have z: "zeros_like mg D = zeros_like mg (defect s)" by (simp add: fun_eq_iff)
  have "D l \<noteq> None" if "minlevel mg \<le> l \<and> l \<le> maxlevel mg" for l
    using assms(3)[rule_format, OF that] assms(4)[rule_format, of l] by (cases "D l") auto
  with assms(1,2) z have "resize_vectors mg (s1\<lparr>defect := D\<rparr>) = Some (Inr (s1\<lparr>defect := D\<rparr>))"
    by (simp add: resize_vectors_closed s1_def)
  moreover have "\<exists>d. defect s l = Some d \<and> solution s1 l = Some (replicate (length d) 0) \<and>
      t s1 l = Some (replicate (length d) 0)" if "minlevel mg \<le> l \<and> l \<le> maxlevel mg" for l
    using assms(3)[rule_format, OF that] that by (auto simp: s1_def zeros_like_def zero_vec_def)
  ultimately show ?thesis using r by blast
qed

theorem resize_idempotent_witness:
  "\<exists>s1. resize_vectors (ex_mg 0 2 None None) ex_state = Some (Inr s1) \<and>
      resize_vectors (ex_mg 0 2 None None) (s1\<lparr>defect := [0 \<mapsto> [1, 1], 1 \<mapsto> [2, 2], 2 \<mapsto> [3, 3]]\<rparr>) =
        Some (Inr (s1\<lparr>defect := [0 \<mapsto> [1, 1], 1 \<mapsto> [2, 2], 2 \<mapsto> [3, 3]]\<rparr>)) \<and>
      solution s1 1 = Some [0, 0] \<and> t s1 2 = Some [0, 0]"
proof -
  have 1: "minlevel (ex_mg 0 2 None None) \<le> maxlevel (ex_mg 0 2 None None)"
    by (simp add: ex_defs)
  have b: "maxlevel (ex_mg 0 2 None None) < 2 ^ 32 - 1"
    by (simp add: ex_defs)
  have 2: "\<forall>l. minlevel (ex_mg 0 2 None None) \<le> l \<and> l \<le> maxlevel (ex_mg 0 2 None None) \<longrightarrow>
      defect ex_state l \<noteq> None"
    by (simp add: ex_defs)
  have 3: "\<forall>l. map_option length ([0 \<mapsto> [1, 1], 1 \<mapsto> [2, 2], 2 \<mapsto> [3, 3::real]] l) =
      map_option length (defect ex_state l)"
    by (simp add: ex_defs)
  from resize_idempotent[OF 1 b 2 3] obtain s1
    where a: "resize_vectors (ex_mg 0 2 None None) ex_state = Some (Inr s1)"
      and b: "resize_vectors (ex_mg 0 2 None None) (s1\<lparr>defect := [0 \<mapsto> [1, 1], 1 \<mapsto> [2, 2], 2 \<mapsto> [3, 3]]\<rparr>) =
        Some (Inr (s1\<lparr>defect := [0 \<mapsto> [1, 1], 1 \<mapsto> [2, 2], 2 \<mapsto> [3, 3]]\<rparr>))"
      and c: "\<forall>l. minlevel (ex_mg 0 2 None None) \<le> l \<and> l \<le> maxlevel (ex_mg 0 2 None None) \<longrightarrow>
              (\<exists>d. defect ex_state l = Some d \<and>
                   solution s1 l = Some (replicate (length d) 0) \<and>
                   t s1 l = Some (replicate (length d) 0))"
    by blast
  from c[rule_format, of 1] c[rule_format, of 2]
  have "solution s1 1 = Some [0, 0]" and "t s1 2 = Some [0, 0]"
    by (auto simp: ex_defs)
  with a b show ?thesis by blast
qed

text \<open>
  C10. When \<open>edge_up\<close> is null, a whole cycle leaves the defect vector of the finest
  level as it was: the restriction cascade writes \<open>defect[l-1]\<close> for cascade levels
  \<open>l\<close> of a frame, which lie strictly below \<open>maxlevel\<close>, and the only other write of a
  defect vector is in the \<open>edge_up\<close> branch. No level from \<open>maxlevel\<close> upwards is written.
\<close>

theorem finest_defect_unchanged:
  assumes "edge_up mg = None" and "vcycle mg s = Some (Inr s')" and "maxlevel mg \<le> k"
  shows "defect s' k = defect s k"
proof -
  from assms(2) obtain s1 where r: "resize_vectors mg s = Some (Inr s1)"
    and m: "level_mgstep mg (maxlevel mg) s1 = Inr s'"
    by (rule vcycle_InrE)
  from writes_resize_vectors[OF r] have "defect s1 k = defect s k"
    by (simp add: writes_within_def)
  moreover from writes_level_mgstep[OF m] assms(1,3) have "defect s' k = defect s1 k"
    by (simp add: writes_within_def)
  ultimately show ?thesis by simp
qed

theorem finest_defect_unchanged_witness:
  "edge_up (ex_mg 0 2 (Some ex_edge) None) = None \<and>
   (\<exists>s'. vcycle (ex_mg 0 2 (Some ex_edge) None) ex_state = Some (Inr s') \<and>
      defect s' 2 = Some [8, 16] \<and> defect s' 1 = Some [2, 4])"
proof -
  have n: "edge_up (ex_mg 0 2 (Some ex_edge) None) = None"
    by (simp add: ex_defs)
  have "\<exists>s'. vcycle (ex_mg 0 2 (Some ex_edge) None) ex_state = Some (Inr s') \<and>
      defect s' 1 = Some [2, 4]"
    by (simp add: run_defs ex_defs)
  then obtain s' where r: "vcycle (ex_mg 0 2 (Some ex_edge) None) ex_state = Some (Inr s')"
    and d: "defect s' 1 = Some [2, 4]"
    by blast
  have "maxlevel (ex_mg 0 2 (Some ex_edge) None) \<le> 2"
    by (simp add: ex_defs)
  from finest_defect_unchanged[OF n r this] have "defect s' 2 = Some [8, 16]"
    by (simp add: ex_defs)
  with n r d show ?thesis by blast
qed

end
